(* ===== verification/Prelude.thy ===== *)
theory Prelude
  imports Main "HOL-Library.Word"
begin

text \<open>
  Shared vocabulary of the development: byte strings, decimal numbers as the
  netstring protocol prints and reads them, the line terminator, and the generic
  lemmas on lists, options and sums that the component theories use.

  Byte strings are HOL strings: one \<open>char\<close> is one byte (\<open>CHR 0x00\<close> to \<open>CHR 0xFF\<close>),
  so \<open>length\<close> counts bytes as \<open>size()\<close> does.
\<close>

named_theorems wf_intros \<open>introduction rules for the well-formedness predicates\<close>

type_synonym size64 = "64 word"

section \<open>Characters\<close>

definition is_digit :: "char \<Rightarrow> bool" where
  "is_digit c \<longleftrightarrow> 48 \<le> (of_char c :: nat) \<and> (of_char c :: nat) \<le> 57"

definition digit_value :: "char \<Rightarrow> nat" where
  "digit_value c = of_char c - 48"

definition digit_char :: "nat \<Rightarrow> char" where
  "digit_char n = char_of (48 + n)"

text \<open>A C string ends at its first null byte.\<close>

definition c_str :: "string \<Rightarrow> string" where
  "c_str s = takeWhile (\<lambda>c. c \<noteq> CHR 0x00) s"

abbreviation CR :: char where "CR \<equiv> CHR 0x0D"
abbreviation LF :: char where "LF \<equiv> CHR 0x0A"
abbreviation CRLF :: string where "CRLF \<equiv> [CR, LF]"

lemma of_digit_char: "n < 10 \<Longrightarrow> (of_char (digit_char n) :: nat) = 48 + n"
  by (simp add: digit_char_def)

lemma is_digit_digit_char [simp]: "n < 10 \<Longrightarrow> is_digit (digit_char n)"
  by (simp add: is_digit_def of_digit_char)

lemma digit_value_digit_char [simp]: "n < 10 \<Longrightarrow> digit_value (digit_char n) = n"
  by (simp add: digit_value_def of_digit_char)

lemma digit_value_less: "is_digit c \<Longrightarrow> digit_value c < 10"
  unfolding is_digit_def digit_value_def by linarith

lemma digit_char_value [simp]:
  assumes "is_digit c"
  shows "digit_char (digit_value c) = c"
proof -
  have "48 + digit_value c = of_char c"
    using assms by (simp add: is_digit_def digit_value_def)
  then show ?thesis
    by (simp add: digit_char_def)
qed

lemma is_digit_colon [simp]: "\<not> is_digit (CHR '':'')"
  by (simp add: is_digit_def)

lemma digit_char_0: "digit_char 0 = CHR ''0''"
  by (simp add: digit_char_def char_of_eq_iff)

lemma digit_value_0_iff: "is_digit c \<Longrightarrow> digit_value c = 0 \<longleftrightarrow> c = CHR ''0''"
  using digit_char_value digit_char_0 by (metis digit_value_digit_char zero_less_numeral)

section \<open>Decimal numbers\<close>

fun dec_of_nat :: "nat \<Rightarrow> string" where
  "dec_of_nat n =
     (if n < 10 then [digit_char n] else dec_of_nat (n div 10) @ [digit_char (n mod 10)])"

declare dec_of_nat.simps [simp del]

definition nat_of_dec :: "string \<Rightarrow> nat" where
  "nat_of_dec s = foldl (\<lambda>a c. 10 * a + digit_value c) 0 s"

lemma nat_of_dec_Nil [simp]: "nat_of_dec [] = 0"
  by (simp add: nat_of_dec_def)

lemma nat_of_dec_snoc [simp]: "nat_of_dec (s @ [c]) = 10 * nat_of_dec s + digit_value c"
  by (simp add: nat_of_dec_def)

lemma dec_of_nat_neq_Nil [simp]: "dec_of_nat n \<noteq> []"
  by (subst dec_of_nat.simps) simp

lemma dec_of_nat_digits: "list_all is_digit (dec_of_nat n)"
proof (induction n rule: dec_of_nat.induct)
  case (1 n)
  then show ?case by (subst dec_of_nat.simps) simp
qed

lemma nat_of_dec_of_nat [simp]: "nat_of_dec (dec_of_nat n) = n"
proof (induction n rule: dec_of_nat.induct)
  case (1 n)
  show ?case
  proof (cases "n < 10")
    case True
    then show ?thesis
      using nat_of_dec_snoc [of "[]" "digit_char n"] by (subst dec_of_nat.simps) simp
  next
    case False
    with "1.IH" show ?thesis by (subst dec_of_nat.simps) simp
  qed
qed

lemma dec_of_nat_inject [simp]: "dec_of_nat m = dec_of_nat n \<longleftrightarrow> m = n"
  by (metis nat_of_dec_of_nat)

lemma hd_dec_of_nat: "0 < n \<Longrightarrow> hd (dec_of_nat n) \<noteq> CHR ''0''"
proof (induction n rule: dec_of_nat.induct)
  case (1 n)
  show ?case
  proof (cases "n < 10")
    case True
    with "1.prems" show ?thesis
      by (subst dec_of_nat.simps)
        (metis digit_char_0 digit_value_digit_char list.sel(1) not_gr_zero zero_less_numeral)
  next
    case False
    with 1 show ?thesis by (subst dec_of_nat.simps) (simp add: hd_append)
  qed
qed

text \<open>A digit string without a leading zero is the canonical decimal of its value.\<close>

lemma dec_of_nat_of_dec:
  assumes "list_all is_digit s" and "s \<noteq> []" and "hd s \<noteq> CHR ''0''"
  shows "dec_of_nat (nat_of_dec s) = s \<and> 0 < nat_of_dec s"
  using assms
proof (induction s rule: rev_induct)
  case Nil
  then show ?case by simp
next
  case (snoc c s)
  from snoc.prems have c: "is_digit c" by simp
  note dc = digit_value_less [OF c]
  show ?case
  proof (cases "s = []")
    case True
    with snoc.prems c have "0 < digit_value c"
      using digit_value_0_iff by auto
    with True c dc show ?thesis
      using nat_of_dec_snoc [of "[]" c] by (subst dec_of_nat.simps) simp
  next
    case False
    with snoc have IH: "dec_of_nat (nat_of_dec s) = s" "0 < nat_of_dec s"
      by (simp_all add: hd_append)
    with c dc show ?thesis
      by (subst dec_of_nat.simps) simp
  qed
qed

lemma nat_of_dec_zeros: "set s \<subseteq> {CHR ''0''} \<Longrightarrow> nat_of_dec s = 0"
  by (induction s rule: rev_induct) (auto simp: digit_value_def)

lemma zeros_digits: "set s \<subseteq> {CHR ''0''} \<Longrightarrow> list_all is_digit s"
  by (auto simp: list_all_iff is_digit_def)

lemma nat_of_dec_0_iff:
  "list_all is_digit s \<Longrightarrow> nat_of_dec s = 0 \<longleftrightarrow> set s \<subseteq> {CHR ''0''}"
  by (induction s rule: rev_induct) (auto simp: digit_value_0_iff)

lemma length_dec_of_nat: "n < 10 ^ k \<Longrightarrow> 0 < k \<Longrightarrow> length (dec_of_nat n) \<le> k"
proof (induction n arbitrary: k rule: dec_of_nat.induct)
  case (1 n)
  show ?case
  proof (cases "n < 10")
    case True
    with "1.prems" show ?thesis by (subst dec_of_nat.simps) simp
  next
    case False
    with "1.prems" obtain j where k: "k = Suc j" and "0 < j"
      by (cases k; cases "k - 1") auto
    moreover have "n div 10 < 10 ^ j"
      using "1.prems" k by (simp add: less_mult_imp_div_less mult.commute)
    ultimately have "length (dec_of_nat (n div 10)) \<le> j"
      using False "1.IH" by blast
    with False k show ?thesis by (subst dec_of_nat.simps) simp
  qed
qed

definition dec_of_int :: "int \<Rightarrow> string" where
  "dec_of_int i = (if i < 0 then CHR ''-'' # dec_of_nat (nat (- i)) else dec_of_nat (nat i))"

section \<open>Splitting a string at the first occurrence of a character\<close>

lemma takeWhile_append_sep:
  "c \<notin> set h \<Longrightarrow> takeWhile (\<lambda>x. x \<noteq> c) (h @ c # t) = h"
  by (induction h) auto

lemma dropWhile_append_sep:
  "c \<notin> set h \<Longrightarrow> dropWhile (\<lambda>x. x \<noteq> c) (h @ c # t) = c # t"
  by (induction h) auto

lemma split_first_sep:
  assumes "c \<in> set s"
  shows "takeWhile (\<lambda>x. x \<noteq> c) s @ c # tl (dropWhile (\<lambda>x. x \<noteq> c) s) = s"
  using assms by (induction s) auto

lemma colon_notin_digits: "list_all is_digit h \<Longrightarrow> CHR '':'' \<notin> set h"
  by (auto simp: list_all_iff)

lemma take_drop_nth_split:
  "n < length r \<Longrightarrow> r = take n r @ r ! n # drop (n + 1) r"
  by (simp add: id_take_nth_drop)

lemma take_append_take: "take k (take k a @ b) = take k (a @ b)"
  by (simp add: min_def)

section \<open>64-bit sizes\<close>

lemma unat_of_nat64: "n < 2 ^ 64 \<Longrightarrow> unat (of_nat n :: size64) = n"
  by (simp add: unat_of_nat)

lemma int_le_uint [simp]: "int n \<le> uint w \<longleftrightarrow> n \<le> unat w"
proof -
  have "uint w = int (unat w)"
    by simp
  then show ?thesis
    by (simp only: of_nat_le_iff)
qed

section \<open>Results\<close>

text \<open>Sequencing of computations that may fail: the first failure is the result.\<close>

definition and_then :: "'e + 'a \<Rightarrow> ('a \<Rightarrow> 'e + 'b) \<Rightarrow> 'e + 'b" where
  "and_then x f = (case x of Inl e \<Rightarrow> Inl e | Inr a \<Rightarrow> f a)"

lemma and_then_simps [simp]:
  "and_then (Inl e) f = Inl e"
  "and_then (Inr a) f = f a"
  by (simp_all add: and_then_def)

lemma and_then_Inr: "and_then x f = Inr b \<longleftrightarrow> (\<exists>a. x = Inr a \<and> f a = Inr b)"
  by (cases x) auto

lemma if_Inl_Inr: "(if p then Inl e else r) = Inr b \<longleftrightarrow> \<not> p \<and> r = Inr b"
  by simp

lemmas result_Inr = and_then_Inr if_Inl_Inr

end
