(* ===== verification/Action.thy ===== *)
theory Action
  imports Complex_Main Prelude
begin

text \<open>
  \<open>src/Action.hxx\<close>: what the Lua handler decided to do with a mail. A \<open>StaticVector\<close> is
  a list whose capacity is checked where the code calls \<open>full()\<close>; the timeout is the
  count of an \<open>Event::Duration\<close>, -1 by default. The theory also holds the values a Lua
  script can pass to or receive from the relay's functions, action objects among them.
\<close>

section \<open>Actions\<close>

datatype action_type = UNDEFINED | DISCARD | REJECT | CONNECT | EXEC | EXEC_RAW

text \<open>The bytes of an \<open>AllocatedSocketAddress\<close>.\<close>

type_synonym socket_address = string

record Action =
  type :: action_type
  connect :: socket_address
  exec :: "string list"
  env :: "string list"
  timeout :: int

definition MAX_EXEC :: nat where "MAX_EXEC = 32"
definition MAX_ENV :: nat where "MAX_ENV = 32"

definition new_action :: Action where
  "new_action = \<lparr>type = UNDEFINED, connect = [], exec = [], env = [], timeout = -1\<rparr>"

definition IsDefined :: "Action \<Rightarrow> bool" where
  "IsDefined a \<longleftrightarrow> type a \<noteq> UNDEFINED"

text \<open>What \<open>Start()\<close> asserts of an action, and what keeps its two argument arrays (one
  element longer than the capacities) within bounds.\<close>

definition exec_ok :: "Action \<Rightarrow> bool" where
  "exec_ok a \<longleftrightarrow> exec a \<noteq> [] \<and> length (exec a) \<le> MAX_EXEC \<and> length (env a) \<le> MAX_ENV"

definition action_ok :: "Action \<Rightarrow> bool" where
  "action_ok a \<longleftrightarrow> IsDefined a \<and> (type a = EXEC \<or> type a = EXEC_RAW \<longrightarrow> exec_ok a)"

section \<open>Lua values\<close>

text \<open>A Lua number is an IEEE double: not a number, an infinity, or a finite value.\<close>

datatype lua_number = NaN | Infinity bool | Finite rat

text \<open>A table is the sequence of its key/value pairs in the order of \<open>lua_next()\<close>; a mail
  object is a reference into the Lua heap; an action object is not changed after its
  creation and stands for its value.\<close>

datatype lua_value =
    LNil
  | LBool bool
  | LNumber lua_number
  | LString string
  | LTable "(lua_value \<times> lua_value) list"
  | LFunction string
  | LLightUserData nat
  | LMail nat
  | LAction Action
  | LAddress socket_address
  | LCgroupInfo string

text \<open>How a C function called from Lua can fail: \<open>luaL_error\<close>, \<open>luaL_argerror\<close>, the type
  error of the \<open>luaL_check\<close> functions, and a C++ exception re-raised as a Lua error.\<close>

datatype lua_error =
    LuaError string
  | LuaArgError nat string
  | LuaTypeError nat
  | LuaException

text \<open>\<open>CheckLuaAction()\<close> of \<open>src/LAction.cxx\<close>: \<open>nullptr\<close> unless the value is an action object.\<close>

definition CheckLuaAction :: "lua_value \<Rightarrow> Action option" where
  "CheckLuaAction v = (case v of LAction a \<Rightarrow> Some a | _ \<Rightarrow> None)"

text \<open>\<open>NewLuaAction()\<close>: a new object with the member initialisers of the struct.\<close>

definition NewLuaAction :: Action where
  "NewLuaAction = new_action"

text \<open>The stack of a C function: arguments are numbered from one; beyond the top there is
  nothing, which every check function treats like nil.\<close>

definition arg :: "lua_value list \<Rightarrow> nat \<Rightarrow> lua_value" where
  "arg args i = (if 1 \<le> i \<and> i \<le> length args then args ! (i - 1) else LNil)"

text \<open>\<open>std::isnormal()\<close> on a double: finite and not below the smallest normal magnitude.\<close>

definition isnormal :: "lua_number \<Rightarrow> bool" where
  "isnormal x = (case x of Finite q \<Rightarrow> 1 / 2 ^ 1022 \<le> \<bar>q\<bar> | _ \<Rightarrow> False)"

end
