(* ===== verification/Libcommon.thy ===== *)
theory Libcommon
  imports Complex_Main Action "HOL-Library.Signed_Division"
begin

text \<open>
  The code the relay calls but whose source is not in the repository: the
  \<open>libcommon\<close> submodule, the \<open>{fmt}\<close> library and the number conversions of the Lua
  library. Each routine is a field of the record \<open>libs\<close>, an argument of every
  definition that calls it; nothing is said about its behaviour except by the
  predicates below, each of which states what the routine's documentation (or the
  caller's own tests) promises and which a theorem names as a hypothesis where it needs
  it. \<open>ref_libs\<close> instantiates the record by concrete functions and satisfies every one
  of the predicates; the witnesses use it.
\<close>

section \<open>Data that crosses the interface\<close>

text \<open>An argument of \<open>fmt::format()\<close>.\<close>

datatype fmt_arg = FStr string | FInt int

text \<open>The fields of \<open>Net::Log::Datagram\<close> that \<open>QmqpRelayConnection::Log()\<close> fills in;
  \<open>nullptr\<close> in \<open>site\<close> is \<open>None\<close>. The enumerators of \<open>Net::Log::Type\<close> are the library's; one of
  them is used, which is a field of \<open>libs\<close>, too.\<close>

record log_datagram =
  dg_timestamp :: int
  dg_site :: "string option"
  dg_message :: string
  dg_type :: nat
  dg_traffic_received :: size64
  dg_traffic_sent :: size64
  dg_length :: size64
  dg_duration :: int

section \<open>The routines\<close>

record libs =
  Split :: "string \<Rightarrow> char \<Rightarrow> string \<times> string option"
    \<comment> \<open>\<open>util/StringSplit.hxx\<close>; \<open>None\<close> is a \<open>string_view\<close> with \<open>data() == nullptr\<close>\<close>
  ParseIntegerTo :: "string \<Rightarrow> size64 option"
    \<comment> \<open>\<open>util/NumberParser.hxx\<close>; \<open>None\<close> is the return value \<open>false\<close>\<close>
  VerifyEmailAddress :: "string \<Rightarrow> bool"
    \<comment> \<open>\<open>uri/EmailAddress.hxx\<close>\<close>
  StripLeft :: "string \<Rightarrow> string"
    \<comment> \<open>\<open>util/StringStrip.hxx\<close>\<close>
  CheckChars :: "(char \<Rightarrow> bool) \<Rightarrow> string \<Rightarrow> bool"
    \<comment> \<open>\<open>util/StringVerify.hxx\<close>\<close>
  CheckCharsNonEmpty :: "(char \<Rightarrow> bool) \<Rightarrow> string \<Rightarrow> bool"
    \<comment> \<open>\<open>util/StringVerify.hxx\<close>\<close>
  NetstringGenerator :: "string list \<Rightarrow> bool \<Rightarrow> string list"
    \<comment> \<open>\<open>net/djb/NetstringGenerator.hxx\<close>: the list it leaves behind\<close>
  NetstringHeader :: "nat \<Rightarrow> string"
    \<comment> \<open>\<open>net/djb/NetstringHeader.hxx\<close>\<close>
  TruncateMessage :: "nat \<Rightarrow> log_datagram \<Rightarrow> log_datagram"
    \<comment> \<open>\<open>net/log/Datagram.hxx\<close>\<close>
  FromSystem :: "int \<Rightarrow> int"
    \<comment> \<open>\<open>Net::Log::FromSystem()\<close>, on counts of the system clock\<close>
  LogDuration :: "int \<times> int"
    \<comment> \<open>the period of the steady clock, divided by that of \<open>Net::Log::Duration\<close>\<close>
  SUBMISSION :: nat
    \<comment> \<open>\<open>Net::Log::Type::SUBMISSION\<close>\<close>
  fmt_format :: "string \<Rightarrow> fmt_arg list \<Rightarrow> string"
    \<comment> \<open>\<open>fmt/format.h\<close>\<close>
  duration_cast :: "rat \<Rightarrow> int"
    \<comment> \<open>to \<open>Event::Duration\<close> of \<open>event/Chrono.hxx\<close>: the count of a number of seconds\<close>
  lua_str2number :: "string \<Rightarrow> lua_number option"
    \<comment> \<open>the conversion \<open>lua_isnumber()\<close> and \<open>lua_tonumber()\<close> apply to a string\<close>
  lua_number2str :: "lua_number \<Rightarrow> string"
    \<comment> \<open>the conversion \<open>luaL_checklstring()\<close> applies to a number\<close>
  lua_tointeger :: "lua_number \<Rightarrow> int"
    \<comment> \<open>the conversion \<open>lua_tointeger()\<close> applies to a number\<close>
  ToSocketAddress :: "lua_value \<Rightarrow> nat \<Rightarrow> socket_address option"
    \<comment> \<open>\<open>lua/net/SocketAddress.hxx\<close>, with the default port; \<open>None\<close> is an exception\<close>

text \<open>\<open>lua_isnumber()\<close> and \<open>lua_tonumber()\<close> in one: numbers, and strings that can be converted.\<close>

definition lua_tonumber :: "libs \<Rightarrow> lua_value \<Rightarrow> lua_number option" where
  "lua_tonumber L v =
     (case v of LNumber x \<Rightarrow> Some x | LString s \<Rightarrow> lua_str2number L s | _ \<Rightarrow> None)"

text \<open>\<open>std::chrono::duration_cast\<close> between integral durations: the count times the quotient of the
  periods, where the division of integers truncates towards zero.\<close>

definition to_log_duration :: "libs \<Rightarrow> int \<Rightarrow> int" where
  "to_log_duration L n = (case LogDuration L of (num, den) \<Rightarrow> (n * num) sdiv den)"

section \<open>What the relay relies on\<close>

text \<open>\<open>Split()\<close> splits at the first occurrence; if there is none, the second part is null.\<close>

definition split_law :: "libs \<Rightarrow> bool" where
  "split_law L \<longleftrightarrow> (\<forall>s c. Split L s c =
     (if c \<in> set s
      then (takeWhile (\<lambda>x. x \<noteq> c) s, Some (tl (dropWhile (\<lambda>x. x \<noteq> c) s)))
      else (s, None)))"

text \<open>\<open>ParseIntegerTo()\<close> reads the whole string as a decimal number, digits only (no sign,
  no white space), and fails where the value does not fit the destination.\<close>

definition parse_integer_law :: "libs \<Rightarrow> bool" where
  "parse_integer_law L \<longleftrightarrow> (\<forall>s. ParseIntegerTo L s =
     (if s \<noteq> [] \<and> list_all is_digit s \<and> nat_of_dec s < 2 ^ 64
      then Some (of_nat (nat_of_dec s)) else None))"

text \<open>\<open>StripLeft()\<close> drops a prefix and leaves no blank at the front.\<close>

definition is_blank :: "char \<Rightarrow> bool" where
  "is_blank c \<longleftrightarrow> c \<in> {CHR '' '', CHR 0x09, CR, LF}"

definition strip_law :: "libs \<Rightarrow> bool" where
  "strip_law L \<longleftrightarrow> (\<forall>s. (\<exists>n. StripLeft L s = drop n s) \<and>
     (\<forall>c t. StripLeft L s = c # t \<longrightarrow> \<not> is_blank c))"

text \<open>\<open>CheckChars()\<close> verifies each character, \<open>CheckCharsNonEmpty()\<close> also that there is one.\<close>

definition check_chars_law :: "libs \<Rightarrow> bool" where
  "check_chars_law L \<longleftrightarrow> (\<forall>p s. CheckChars L p s = list_all p s \<and>
     CheckCharsNonEmpty L p s = (s \<noteq> [] \<and> list_all p s))"

text \<open>A netstring: the decimal length, a colon, the bytes, a comma.\<close>

definition netstring :: "string \<Rightarrow> string" where
  "netstring v = dec_of_nat (length v) @ '':'' @ v @ '',''"

text \<open>\<open>NetstringGenerator\<close> turns a list of buffers into the netstring of their
  concatenation by adding at most a header in front and, when asked, a comma at the end;
  \<open>NetstringHeader\<close> prints the header alone.\<close>

definition netstring_generator_law :: "libs \<Rightarrow> bool" where
  "netstring_generator_law L \<longleftrightarrow>
     (\<forall>xs. concat (NetstringGenerator L xs True) = netstring (concat xs) \<and>
        length (NetstringGenerator L xs True) \<le> length xs + 2)"

definition netstring_header_law :: "libs \<Rightarrow> bool" where
  "netstring_header_law L \<longleftrightarrow> (\<forall>n. NetstringHeader L n = dec_of_nat n @ '':'')"

text \<open>\<open>TruncateMessage()\<close> shortens the message and touches no other attribute.\<close>

definition truncate_law :: "libs \<Rightarrow> bool" where
  "truncate_law L \<longleftrightarrow>
     (\<forall>k d. \<exists>n. TruncateMessage L k d = d\<lparr>dg_message := take n (dg_message d)\<rparr>)"

text \<open>What it is called for: a message that fits is sent as it is, one that is too long is cut off at
  the limit.\<close>

definition message_limit_law :: "libs \<Rightarrow> bool" where
  "message_limit_law L \<longleftrightarrow>
     (\<forall>k d. TruncateMessage L k d = d\<lparr>dg_message := take k (dg_message d)\<rparr>)"

text \<open>\<open>fmt::format()\<close> on a format whose only braces are the replacement fields \<open>{}\<close>: each
  field is replaced by its argument. The format is given as the text before the first
  field and the texts after each field.\<close>

fun fmt_show :: "fmt_arg \<Rightarrow> string" where
  "fmt_show (FStr s) = s"
| "fmt_show (FInt i) = dec_of_int i"

definition no_brace :: "string \<Rightarrow> bool" where
  "no_brace s \<longleftrightarrow> CHR ''{'' \<notin> set s \<and> CHR ''}'' \<notin> set s"

definition fmt_law :: "libs \<Rightarrow> bool" where
  "fmt_law L \<longleftrightarrow> (\<forall>p ps as. no_brace p \<longrightarrow> list_all no_brace ps \<longrightarrow> length as = length ps \<longrightarrow>
     fmt_format L (p @ concat (map (\<lambda>q. ''{}'' @ q) ps)) as =
     p @ concat (map2 (\<lambda>a q. fmt_show a @ q) as ps))"

text \<open>\<open>std::chrono::duration_cast\<close> truncates towards zero to the clock's resolution, a
  nanosecond: a value of at least one nanosecond is not lost, one below half a nanosecond
  is.\<close>

definition duration_law :: "libs \<Rightarrow> bool" where
  "duration_law L \<longleftrightarrow> (\<forall>q. (1 / 10 ^ 9 \<le> q \<longrightarrow> 0 < duration_cast L q) \<and>
     (0 \<le> q \<and> q < 1 / (2 * 10 ^ 9) \<longrightarrow> duration_cast L q = 0))"

definition libs_ok :: "libs \<Rightarrow> bool" where
  "libs_ok L \<longleftrightarrow> split_law L \<and> parse_integer_law L \<and> strip_law L \<and> check_chars_law L \<and>
     netstring_generator_law L \<and> netstring_header_law L \<and> truncate_law L \<and> fmt_law L \<and>
     duration_law L"

section \<open>A concrete instance\<close>

definition ref_Split :: "string \<Rightarrow> char \<Rightarrow> string \<times> string option" where
  "ref_Split s c = (case dropWhile (\<lambda>x. x \<noteq> c) s of
      [] \<Rightarrow> (s, None)
    | _ # r \<Rightarrow> (takeWhile (\<lambda>x. x \<noteq> c) s, Some r))"

definition ref_ParseIntegerTo :: "string \<Rightarrow> size64 option" where
  "ref_ParseIntegerTo s =
     (if s \<noteq> [] \<and> list_all is_digit s \<and> int (nat_of_dec s) < 2 ^ 64
      then Some (of_nat (nat_of_dec s)) else None)"

text \<open>An address is a non-empty name, an at sign and a non-empty domain, printable and
  without blanks.\<close>

definition ref_VerifyEmailAddress :: "string \<Rightarrow> bool" where
  "ref_VerifyEmailAddress s \<longleftrightarrow>
     (case dropWhile (\<lambda>x. x \<noteq> CHR ''@'') s of
        [] \<Rightarrow> False
      | _ # d \<Rightarrow> takeWhile (\<lambda>x. x \<noteq> CHR ''@'') s \<noteq> [] \<and> d \<noteq> [] \<and>
          list_all (\<lambda>c. 33 \<le> (of_char c :: nat) \<and> (of_char c :: nat) \<le> 126) s)"

fun ref_fmt :: "string \<Rightarrow> fmt_arg list \<Rightarrow> string" where
  "ref_fmt [] as = []"
| "ref_fmt [c] as = [c]"
| "ref_fmt (c # d # s) as =
     (if c = CHR ''{'' \<and> d = CHR ''}''
      then (case as of [] \<Rightarrow> [] | a # as' \<Rightarrow> fmt_show a @ ref_fmt s as')
      else c # ref_fmt (d # s) as)"

definition ref_libs :: libs where
  "ref_libs = \<lparr>
     Split = ref_Split,
     ParseIntegerTo = ref_ParseIntegerTo,
     VerifyEmailAddress = ref_VerifyEmailAddress,
     StripLeft = dropWhile is_blank,
     CheckChars = list_all,
     CheckCharsNonEmpty = (\<lambda>p s. s \<noteq> [] \<and> list_all p s),
     NetstringGenerator = (\<lambda>xs comma.
       (dec_of_nat (length (concat xs)) @ '':'') # xs @ (if comma then ['',''] else [])),
     NetstringHeader = (\<lambda>n. dec_of_nat n @ '':''),
     TruncateMessage = (\<lambda>k d. d\<lparr>dg_message := take k (dg_message d)\<rparr>),
     FromSystem = (\<lambda>t. t sdiv 1000),
     LogDuration = (1, 1000),
     SUBMISSION = 3,
     fmt_format = ref_fmt,
     duration_cast = (\<lambda>q. \<lfloor>q * 10 ^ 9\<rfloor>),
     lua_str2number = (\<lambda>_. None),
     lua_number2str = (\<lambda>_. ''number''),
     lua_tointeger = (\<lambda>x. case x of Finite q \<Rightarrow> \<lfloor>q\<rfloor> | _ \<Rightarrow> 0),
     ToSocketAddress = (\<lambda>v port. case v of LAddress a \<Rightarrow> Some a | LString s \<Rightarrow> Some s | _ \<Rightarrow> None) \<rparr>"

lemma ref_split_law: "split_law ref_libs"
proof -
  have "ref_Split s c = (if c \<in> set s
      then (takeWhile (\<lambda>x. x \<noteq> c) s, Some (tl (dropWhile (\<lambda>x. x \<noteq> c) s)))
      else (s, None))" for s c
  proof (cases "c \<in> set s")
    case True
    then have "dropWhile (\<lambda>x. x \<noteq> c) s \<noteq> []"
      by (auto simp: dropWhile_eq_Nil_conv)
    with True show ?thesis
      by (auto simp: ref_Split_def split: list.splits)
  next
    case False
    then have nil: "dropWhile (\<lambda>x. x \<noteq> c) s = []"
      by (auto simp: dropWhile_eq_Nil_conv)
    from False show ?thesis
      unfolding ref_Split_def nil by simp
  qed
  then show ?thesis
    by (simp add: split_law_def ref_libs_def)
qed

lemma ref_fmt_prefix:
  "no_brace p \<Longrightarrow> ref_fmt (p @ s) as = p @ ref_fmt s as"
proof (induction p)
  case Nil
  then show ?case by simp
next
  case (Cons c p)
  then have "no_brace p" and "c \<noteq> CHR ''{''"
    by (auto simp: no_brace_def)
  with Cons.IH show ?case
    by (cases "p @ s") auto
qed

lemma ref_fmt_law: "fmt_law ref_libs"
proof -
  have "ref_fmt (concat (map (\<lambda>q. ''{}'' @ q) ps)) as = concat (map2 (\<lambda>a q. fmt_show a @ q) as ps)"
    if "list_all no_brace ps" and "length as = length ps" for ps as
    using that(2,1)
  proof (induction as ps rule: list_induct2)
    case Nil
    then show ?case by simp
  next
    case (Cons a as q ps)
    then show ?case by (simp add: ref_fmt_prefix)
  qed
  then show ?thesis
    by (simp add: fmt_law_def ref_libs_def ref_fmt_prefix)
qed

lemma ref_strip_law: "strip_law ref_libs"
proof -
  have "\<exists>n. dropWhile is_blank s = drop n s" for s
    using dropWhile_eq_drop by blast
  moreover have "\<not> is_blank c" if "dropWhile is_blank s = c # t" for s c t
    using hd_dropWhile [of is_blank s] that by simp
  ultimately show ?thesis
    by (simp add: strip_law_def ref_libs_def)
qed

lemma ref_duration_law: "duration_law ref_libs"
  by (auto simp: duration_law_def ref_libs_def field_simps floor_eq_iff le_floor_iff)

lemma ref_libs_ok: "libs_ok ref_libs"
proof -
  have "int n < 2 ^ 64 \<longleftrightarrow> n < 2 ^ 64" for n
    using of_nat_less_iff [of n "2 ^ 64", where 'a = int] by simp
  then have "parse_integer_law ref_libs"
    unfolding parse_integer_law_def ref_ParseIntegerTo_def ref_libs_def by simp
  moreover have "check_chars_law ref_libs"
    by (simp add: check_chars_law_def ref_libs_def)
  moreover have "netstring_generator_law ref_libs" "netstring_header_law ref_libs"
    by (simp_all add: netstring_generator_law_def netstring_header_law_def ref_libs_def
        netstring_def)
  moreover have "truncate_law ref_libs"
    by (auto simp: truncate_law_def ref_libs_def)
  ultimately show ?thesis
    by (simp add: libs_ok_def ref_split_law ref_strip_law ref_fmt_law ref_duration_law)
qed

lemma ref_message_limit_law: "message_limit_law ref_libs"
  by (simp add: message_limit_law_def ref_libs_def)

text \<open>The single laws of a library that satisfies all of them.\<close>

lemma libs_okD:
  assumes "libs_ok L"
  shows "split_law L" and "parse_integer_law L" and "strip_law L" and "check_chars_law L"
    and "netstring_generator_law L" and "netstring_header_law L" and "truncate_law L"
    and "fmt_law L" and "duration_law L"
  using assms by (simp_all add: libs_ok_def)

lemmas ref_laws [simp] = ref_libs_ok libs_okD [OF ref_libs_ok]

text \<open>The formats of the program, instances of the general law.\<close>

lemma fmt_header:
  assumes "fmt_law L"
  shows "fmt_format L (''{}: {}'' @ CRLF) [FStr n, FStr v] = n @ '': '' @ v @ CRLF"
  using assms [unfolded fmt_law_def, rule_format, of "[]" "['': '', CRLF]" "[FStr n, FStr v]"]
  by (simp add: no_brace_def)

lemma fmt_received:
  assumes "fmt_law L"
  shows "fmt_format L (''Received: from PID={} UID={} with QMQP'' @ CRLF) [FInt p, FInt u] =
    ''Received: from PID='' @ dec_of_int p @ '' UID='' @ dec_of_int u @ '' with QMQP'' @ CRLF"
  using assms [unfolded fmt_law_def, rule_format, of "''Received: from PID=''"
      "['' UID='', '' with QMQP'' @ CRLF]" "[FInt p, FInt u]"]
  by (simp add: no_brace_def)

lemma fmt_angle:
  assumes "fmt_law L"
  shows "fmt_format L ''<{}>'' [FStr r] = ''<'' @ r @ ''>''"
  using assms [unfolded fmt_law_def, rule_format, of "''<''" "[''>'']" "[FStr r]"]
  by (simp add: no_brace_def)

lemma fmt_from:
  assumes "fmt_law L"
  shows "fmt_format L ''from=<{}> to='' [FStr s] = ''from=<'' @ s @ ''> to=''"
  using assms [unfolded fmt_law_def, rule_format, of "''from=<''" "[''> to='']" "[FStr s]"]
  by (simp add: no_brace_def)

end
