(* ===== verification/Relay.thy ===== *)
theory Relay
  imports Libcommon
begin

unbundle bit_operations_syntax

text \<open>
  What the relay classes share: the calls they make to their \<open>RelayHandler\<close>
  (\<open>src/Handler.hxx\<close>), the result of running one of their methods, the translation of
  exit statuses (\<open>src/ExitStatus.hxx\<close>) with the wait status macros of the C library, and
  the contract of a relay operation as the connection relies on it.

  A call to the handler ends the life of the relay: \<open>QmqpRelayConnection\<close> deletes itself in
  both methods, and with it the relay object (proved in the theory of the connection). So a
  method either leaves the object running, or has called the handler, and then it must not
  touch a member any more; if it does, the result is \<open>Crashed UseAfterFree\<close>.
\<close>

section \<open>Calls to the handler\<close>

text \<open>The exception passed to \<open>OnRelayError()\<close> is only printed and is left out.\<close>

datatype handler_call = RelayResponse string | RelayError string

datatype crash = AssertionFailed | Unreachable | UninitializedRead | UseAfterFree | BufferOverflow

text \<open>The method returned a value and the object lives on; or the handler was called, with the
  object in the given state, and the method returned without touching it again; or the
  program has gone wrong.\<close>

datatype ('a, 'r) outcome = Running 'a 'r | Finished 'a 'r handler_call | Crashed crash

fun the_call :: "('a, 'r) outcome \<Rightarrow> handler_call option" where
  "the_call (Finished a r c) = Some c"
| "the_call _ = None"

text \<open>A method may call another one of its own object and go on. It may use the value that has been
  returned, but if the handler has been called in between, there is no object any more whose
  members it could access.\<close>

fun returned :: "('a, 'r) outcome \<Rightarrow> 'a option" where
  "returned (Running a r) = Some a"
| "returned (Finished a r c) = Some a"
| "returned (Crashed x) = None"

fun void :: "('a, 'r) outcome \<Rightarrow> (unit, 'r) outcome" where
  "void (Running a r) = Running () r"
| "void (Finished a r c) = Finished () r c"
| "void (Crashed x) = Crashed x"

lemma void_cases [simp]:
  "void out = Running u r \<longleftrightarrow> (\<exists>a. out = Running a r)"
  "void out = Finished u r c \<longleftrightarrow> (\<exists>a. out = Finished a r c)"
  "void out = Crashed x \<longleftrightarrow> out = Crashed x"
  by (cases out; simp)+

fun access_members :: "('a, 'r) outcome \<Rightarrow> ('r \<Rightarrow> ('b, 'r) outcome) \<Rightarrow> ('b, 'r) outcome" where
  "access_members (Running a r) f = f r"
| "access_members (Finished a r c) f = Crashed UseAfterFree"
| "access_members (Crashed x) f = Crashed x"

fun response_of :: "handler_call \<Rightarrow> string" where
  "response_of (RelayResponse s) = s"
| "response_of (RelayError s) = s"

section \<open>The interface \<open>RelayHandler\<close>\<close>

text \<open>The two methods of the handler and what its clients, the relays, may assume: called in a
  state that is ready for it, either method takes the response over and is the end of the
  handler's owner, which is \<open>dead\<close> afterwards with exactly this response sent.\<close>

fun call_handler ::
  "(string \<Rightarrow> 'h \<Rightarrow> crash + 'h) \<Rightarrow> (string \<Rightarrow> 'h \<Rightarrow> crash + 'h) \<Rightarrow> handler_call \<Rightarrow> 'h \<Rightarrow> crash + 'h" where
  "call_handler on_response on_error (RelayResponse s) h = on_response s h"
| "call_handler on_response on_error (RelayError s) h = on_error s h"

locale relay_handler =
  fixes on_response :: "string \<Rightarrow> 'h \<Rightarrow> crash + 'h"
    and on_error :: "string \<Rightarrow> 'h \<Rightarrow> crash + 'h"
    and ready :: "'h \<Rightarrow> bool"
    and dead :: "'h \<Rightarrow> bool"
    and sent :: "'h \<Rightarrow> string list"
  assumes response_ends: "ready h \<Longrightarrow> s \<noteq> [] \<Longrightarrow>
      \<exists>h'. on_response s h = Inr h' \<and> dead h' \<and> sent h' = sent h @ [s]"
    and error_ends: "ready h \<Longrightarrow> s \<noteq> [] \<Longrightarrow>
      \<exists>h'. on_error s h = Inr h' \<and> dead h' \<and> sent h' = sent h @ [s]"
begin

lemma call_ends:
  "ready h \<Longrightarrow> response_of c \<noteq> [] \<Longrightarrow> \<exists>h'. call_handler on_response on_error c h = Inr h' \<and>
    dead h' \<and> sent h' = sent h @ [response_of c]"
  by (cases c) (simp_all add: response_ends error_ends)

end

section \<open>QMQP responses\<close>

text \<open>A response starts with its code: \<open>K\<close> accepted, \<open>D\<close> permanent, \<open>Z\<close> temporary failure.\<close>

definition valid_response :: "string \<Rightarrow> bool" where
  "valid_response s \<longleftrightarrow> s \<noteq> [] \<and> hd s \<in> {CHR ''K'', CHR ''D'', CHR ''Z''}"

text \<open>What a connection sends is moreover short: a \<open>NetstringClient\<close> is created with a limit of 256
  bytes, and the buffer of the raw relay has as many.\<close>

definition good_response :: "string \<Rightarrow> bool" where
  "good_response s \<longleftrightarrow> valid_response s \<and> length s \<le> 256"

lemmas good_defs = good_response_def valid_response_def

definition call_ok :: "handler_call \<Rightarrow> bool" where
  "call_ok c \<longleftrightarrow> good_response (response_of c) \<and>
     (case c of RelayError s \<Rightarrow> hd s \<noteq> CHR ''K'' | _ \<Rightarrow> True)"

lemma call_ok_nonempty: "call_ok c \<Longrightarrow> response_of c \<noteq> []"
  by (simp add: call_ok_def good_response_def valid_response_def)

lemma call_ok_good: "call_ok c \<Longrightarrow> good_response (response_of c)"
  by (simp add: call_ok_def)

lemma call_ok_simps [simp]:
  "call_ok (RelayResponse s) \<longleftrightarrow> good_response s"
  "call_ok (RelayError s) \<longleftrightarrow> s \<noteq> [] \<and> hd s \<in> {CHR ''D'', CHR ''Z''} \<and> length s \<le> 256"
  by (auto simp: call_ok_def good_response_def valid_response_def)

lemma call_ok_K: "call_ok c \<Longrightarrow> hd (response_of c) = CHR ''K'' \<Longrightarrow> c = RelayResponse (response_of c)"
  by (cases c) (auto simp: call_ok_def)

section \<open>Wait statuses\<close>

type_synonym wait_status = "32 word"

definition WTERMSIG :: "wait_status \<Rightarrow> wait_status" where
  "WTERMSIG s = s AND 0x7f"

definition WIFSIGNALED :: "wait_status \<Rightarrow> bool" where
  "WIFSIGNALED s \<longleftrightarrow> WTERMSIG s \<noteq> 0 \<and> WTERMSIG s \<noteq> 0x7f"

definition WEXITSTATUS :: "wait_status \<Rightarrow> wait_status" where
  "WEXITSTATUS s = drop_bit 8 (s AND 0xff00)"

definition EXIT_SUCCESS :: wait_status where "EXIT_SUCCESS = 0"
definition EX_USAGE :: wait_status where "EX_USAGE = 64"
definition EX_OSFILE :: wait_status where "EX_OSFILE = 72"
definition EX_NOPERM :: wait_status where "EX_NOPERM = 77"
definition EX_CONFIG :: wait_status where "EX_CONFIG = 78"

text \<open>How the kernel encodes an exit code.\<close>

definition exited :: "8 word \<Rightarrow> wait_status" where
  "exited c = push_bit 8 (ucast c)"

lemma mask_literals: "(0x7f :: 32 word) = mask 7" "(0xff00 :: 32 word) = push_bit 8 (mask 8)"
  by (simp_all add: mask_eq_exp_minus_1)

lemma WTERMSIG_exited [simp]: "WTERMSIG (exited c) = 0"
  unfolding WTERMSIG_def exited_def mask_literals by (rule bit_eqI) (auto simp: bit_simps)

lemma WIFSIGNALED_exited [simp]: "\<not> WIFSIGNALED (exited c)"
  by (simp add: WIFSIGNALED_def)

lemma WEXITSTATUS_exited [simp]: "WEXITSTATUS (exited c) = ucast c"
  unfolding WEXITSTATUS_def exited_def mask_literals
  by (rule bit_eqI) (auto simp: bit_simps dest: bit_imp_le_length)

lemma exited_nonneg [simp]: "0 \<le> sint (exited c)"
proof -
  have "\<not> bit (exited c) 31"
    by (auto simp: exited_def bit_simps dest: bit_imp_le_length)
  then show ?thesis
    using bit_last_iff [of "exited c"] by simp
qed

text \<open>\<open>ExitStatusToQmqpResponse()\<close>.\<close>

definition ExitStatusToQmqpResponse :: "wait_status \<Rightarrow> string" where
  "ExitStatusToQmqpResponse status =
     (if status \<in> {EX_USAGE, EX_OSFILE, EX_NOPERM, EX_CONFIG}
      then ''Dinternal server error'' else ''Zinternal server error'')"

lemma ExitStatus_response:
  "ExitStatusToQmqpResponse c \<noteq> []"
  "hd (ExitStatusToQmqpResponse c) \<in> {CHR ''D'', CHR ''Z''}"
  "length (ExitStatusToQmqpResponse c) \<le> 256"
  by (simp_all add: ExitStatusToQmqpResponse_def)

text \<open>Success of the child: a status that is not an error of \<open>waitid()\<close>, no signal, exit code 0.\<close>

definition child_succeeded :: "wait_status \<Rightarrow> bool" where
  "child_succeeded s \<longleftrightarrow> 0 \<le> sint s \<and> \<not> WIFSIGNALED s \<and> WEXITSTATUS s = EXIT_SUCCESS"

lemma child_succeeded_exited [simp]: "child_succeeded (exited c) \<longleftrightarrow> c = 0"
proof -
  have "ucast c = (0 :: 32 word) \<longleftrightarrow> c = 0"
  proof
    assume zero: "ucast c = (0 :: 32 word)"
    show "c = 0"
    proof (rule bit_eqI)
      fix n
      have "\<not> bit (ucast c :: 32 word) n"
        by (simp add: zero)
      then show "bit c n = bit (0 :: 8 word) n"
        using bit_imp_le_length [of c n] by (auto simp: bit_simps)
    qed
  qed simp
  then show ?thesis
    by (simp add: child_succeeded_def EXIT_SUCCESS_def)
qed

section \<open>The contract of a relay operation\<close>

text \<open>The connection creates a relay and forgets its type; events drive it until it calls the
  handler. It may rely on this: an event that can occur (\<open>enabled\<close>) keeps the invariant of
  the object, or ends its life with one call whose response is well formed; outside a
  \<open>hazard\<close> nothing goes wrong.\<close>

locale relay_operation =
  fixes step :: "'e \<Rightarrow> 'r \<Rightarrow> (unit, 'r) outcome"
    and enabled :: "'r \<Rightarrow> 'e \<Rightarrow> bool"
    and hazard :: "'e \<Rightarrow> bool"
    and inv :: "'r \<Rightarrow> bool"
  assumes step_inv: "inv r \<Longrightarrow> enabled r e \<Longrightarrow> step e r = Running u r' \<Longrightarrow> inv r'"
    and step_call: "inv r \<Longrightarrow> enabled r e \<Longrightarrow> step e r = Finished u r' c \<Longrightarrow> call_ok c"
    and step_safe: "inv r \<Longrightarrow> enabled r e \<Longrightarrow> \<not> hazard e \<Longrightarrow> step e r \<noteq> Crashed x"

text \<open>A relay operation that owns a child process: only the exit of the child makes it forget
  the process, so that a relay destroyed earlier still holds it and terminates it.\<close>

locale child_relay = relay_operation +
  fixes child :: "'r \<Rightarrow> bool"
    and exit_event :: "'e \<Rightarrow> bool"
  assumes keeps_child: "inv r \<Longrightarrow> enabled r e \<Longrightarrow> \<not> exit_event e \<Longrightarrow> child r \<Longrightarrow>
      step e r = Running u r' \<Longrightarrow> child r'"
    and call_keeps_child: "inv r \<Longrightarrow> enabled r e \<Longrightarrow> \<not> exit_event e \<Longrightarrow> child r \<Longrightarrow>
      step e r = Finished u r' c \<Longrightarrow> child r'"

text \<open>Running a relay on a sequence of events; once it has called the handler the rest of the
  events no longer reaches it.\<close>

primrec run_relay ::
  "('e \<Rightarrow> 'r \<Rightarrow> (unit, 'r) outcome) \<Rightarrow> 'e list \<Rightarrow> 'r \<Rightarrow> (unit, 'r) outcome" where
  "run_relay step [] r = Running () r"
| "run_relay step (e # es) r =
     (case step e r of Running u r' \<Rightarrow> run_relay step es r' | out \<Rightarrow> out)"

primrec run_enabled ::
  "('e \<Rightarrow> 'r \<Rightarrow> (unit, 'r) outcome) \<Rightarrow> ('r \<Rightarrow> 'e \<Rightarrow> bool) \<Rightarrow> 'e list \<Rightarrow> 'r \<Rightarrow> bool" where
  "run_enabled step en [] r = True"
| "run_enabled step en (e # es) r =
     (en r e \<and> (case step e r of Running u r' \<Rightarrow> run_enabled step en es r' | _ \<Rightarrow> True))"

context relay_operation
begin

lemma run_inv:
  "inv r \<Longrightarrow> run_enabled step enabled es r \<Longrightarrow> run_relay step es r = Running u r' \<Longrightarrow> inv r'"
  by (induction es arbitrary: r) (auto split: outcome.splits dest: step_inv)

lemma run_call:
  "inv r \<Longrightarrow> run_enabled step enabled es r \<Longrightarrow> run_relay step es r = Finished u r' c \<Longrightarrow> call_ok c"
  by (induction es arbitrary: r) (auto split: outcome.splits dest: step_inv step_call)

lemma run_safe:
  "inv r \<Longrightarrow> run_enabled step enabled es r \<Longrightarrow> \<forall>e \<in> set es. \<not> hazard e \<Longrightarrow>
    run_relay step es r \<noteq> Crashed x"
  by (induction es arbitrary: r) (auto split: outcome.splits dest: step_inv step_safe)

end

context child_relay
begin

lemma run_keeps_child:
  "inv r \<Longrightarrow> run_enabled step enabled es r \<Longrightarrow> \<forall>e \<in> set es. \<not> exit_event e \<Longrightarrow> child r \<Longrightarrow>
    run_relay step es r = Running u r' \<or> run_relay step es r = Finished u r' c \<Longrightarrow> child r'"
proof (induction es arbitrary: r)
  case Nil
  then show ?case by simp
next
  case (Cons e es)
  show ?case
  proof (cases "step e r")
    case (Running v r1)
    with Cons.prems have "inv r1" "child r1" "run_enabled step enabled es r1"
      using step_inv keeps_child by auto
    with Cons Running show ?thesis
      by auto
  next
    case (Finished v r1 c1)
    with Cons.prems show ?thesis
      using call_keeps_child [of r e v r1 c1] by auto
  next
    case (Crashed x)
    with Cons.prems show ?thesis
      by auto
  qed
qed

end

end
