(* ===== verification/NetstringParser.thy ===== *)
theory NetstringParser
  imports Libcommon
begin

text \<open>
  \<open>src/djb/NetstringParser.cxx\<close>: one netstring is taken off the front of the input. The
  input is passed by reference and only advanced on success; a \<open>string_view\<close> whose
  \<open>data()\<close> is null (\<open>return {}\<close>) is \<open>None\<close>. The lemmas characterise exactly which
  inputs are accepted, under the documented behaviour of \<open>Split()\<close> and
  \<open>ParseIntegerTo()\<close>.
\<close>

section \<open>The parser\<close>

definition ParseNetstring :: "libs \<Rightarrow> string \<Rightarrow> string option \<times> string" where
  "ParseNetstring L input =
     (case Split L input (CHR '':'') of
        (value_size_string, None) \<Rightarrow> (None, input)
      | (value_size_string, Some rest) \<Rightarrow>
          (case ParseIntegerTo L value_size_string of
             None \<Rightarrow> (None, input)
           | Some value_size \<Rightarrow>
               if 0 < value_size \<and> hd value_size_string = CHR ''0''
               then (None, input)
               else if length rest \<le> unat value_size \<or> rest ! unat value_size \<noteq> CHR '',''
               then (None, input)
               else (Some (take (unat value_size) rest), drop (unat value_size + 1) rest)))"

section \<open>Its contract\<close>

text \<open>The accepted length fields for a payload: the canonical decimal, or, for the empty
  payload, any non-empty run of zeroes.\<close>

definition length_field :: "string \<Rightarrow> string \<Rightarrow> bool" where
  "length_field h v \<longleftrightarrow>
     h = dec_of_nat (length v) \<or> v = [] \<and> h \<noteq> [] \<and> set h \<subseteq> {CHR ''0''}"

text \<open>The whole behaviour, without the library: what is in front of the first colon, how it
  reads as a number, and where the comma must be.\<close>

lemma length_field_digits:
  "length_field h v \<Longrightarrow> h \<noteq> [] \<and> list_all is_digit h \<and> nat_of_dec h = length v"
  by (auto simp: length_field_def dec_of_nat_digits nat_of_dec_zeros zeros_digits)

lemma length_field_leading_zero:
  "length_field h v \<Longrightarrow> hd h = CHR ''0'' \<Longrightarrow> v = []"
  using hd_dec_of_nat [of "length v"] by (auto simp: length_field_def)

lemma length_fieldI:
  assumes "h \<noteq> []" and "list_all is_digit h" and "nat_of_dec h = length v"
    and "v \<noteq> [] \<longrightarrow> hd h \<noteq> CHR ''0''"
  shows "length_field h v"
proof (cases "v = []")
  case True
  with assms show ?thesis
    by (simp add: length_field_def nat_of_dec_0_iff)
next
  case False
  with assms dec_of_nat_of_dec [of h] show ?thesis
    by (simp add: length_field_def)
qed

text \<open>Completeness: a length field, a colon, the payload and a comma are always accepted.\<close>

lemma ParseNetstring_accepts:
  assumes "split_law L" and "parse_integer_law L"
    and h: "length_field h v" and v: "length v < 2 ^ 64"
  shows "ParseNetstring L (h @ '':'' @ v @ '','' @ r) = (Some v, r)"
proof -
  note d = length_field_digits [OF h]
  then have nc: "CHR '':'' \<notin> set h"
    by (simp add: colon_notin_digits)
  have split: "Split L (h @ CHR '':'' # v @ CHR '','' # r) (CHR '':'') = (h, Some (v @ CHR '','' # r))"
    using assms(1) takeWhile_append_sep [OF nc] dropWhile_append_sep [OF nc]
    by (simp add: split_law_def)
  have size: "ParseIntegerTo L h = Some (of_nat (length v))"
    using assms(2) d v by (simp add: parse_integer_law_def)
  have unat: "unat (of_nat (length v) :: size64) = length v"
    using v by (simp add: unat_of_nat64)
  have "\<not> (0 < (of_nat (length v) :: size64) \<and> hd h = CHR ''0'')"
    using length_field_leading_zero [OF h] by auto
  with unat show ?thesis
    by (simp add: ParseNetstring_def split size nth_append)
qed

text \<open>Soundness: whatever is accepted has this shape, and the rest of the input follows it.\<close>

lemma ParseNetstring_accepted:
  assumes "split_law L" and "parse_integer_law L"
    and acc: "ParseNetstring L s = (Some v, r)"
  shows "\<exists>h. s = h @ '':'' @ v @ '','' @ r \<and> length_field h v \<and> length v < 2 ^ 64"
proof -
  let ?h = "takeWhile (\<lambda>x. x \<noteq> CHR '':'') s"
  let ?r = "tl (dropWhile (\<lambda>x. x \<noteq> CHR '':'') s)"
  have colon: "CHR '':'' \<in> set s"
    using acc assms(1) by (auto simp: ParseNetstring_def split_law_def split: if_splits)
  then have split: "Split L s (CHR '':'') = (?h, Some ?r)"
    using assms(1) by (simp add: split_law_def)
  then obtain w where w: "ParseIntegerTo L ?h = Some w"
    using acc by (auto simp: ParseNetstring_def split: option.splits)
  have h: "?h \<noteq> []" "list_all is_digit ?h" "nat_of_dec ?h < 2 ^ 64" "w = of_nat (nat_of_dec ?h)"
    using assms(2) w by (auto simp: parse_integer_law_def split: if_splits)
  then have uw: "unat w = nat_of_dec ?h"
    by (simp add: unat_of_nat64)
  have guards: "\<not> (0 < w \<and> hd ?h = CHR ''0'')" "unat w < length ?r" "?r ! unat w = CHR '',''"
      "v = take (unat w) ?r" "r = drop (unat w + 1) ?r"
    using acc by (auto simp: ParseNetstring_def split w split: if_splits)
  then have len: "length v = nat_of_dec ?h"
    using uw by simp
  have "?r = v @ '','' @ r"
    using guards take_drop_nth_split [of "unat w" ?r] by simp
  then have "s = ?h @ '':'' @ v @ '','' @ r"
    using split_first_sep [OF colon] by simp
  moreover have "length_field ?h v"
  proof (rule length_fieldI)
    show "v \<noteq> [] \<longrightarrow> hd ?h \<noteq> CHR ''0''"
      using guards(1) len uw by (auto simp: word_gt_0 unat_eq_zero)
  qed (use h len in simp_all)
  ultimately show ?thesis
    using h(3) len by auto
qed

text \<open>A failed call leaves the input where it was.\<close>

lemma ParseNetstring_None: "fst (ParseNetstring L s) = None \<Longrightarrow> snd (ParseNetstring L s) = s"
  by (auto simp: ParseNetstring_def split: prod.splits option.splits if_splits)

lemma ParseNetstring_shorter:
  assumes "split_law L" and "parse_integer_law L" and "ParseNetstring L s = (Some v, r)"
  shows "length v + length r + 2 < length s"
  using ParseNetstring_accepted [OF assms] length_field_digits by fastforce

text \<open>The canonical encoding is accepted, whatever follows it.\<close>

lemma ParseNetstring_netstring:
  assumes "split_law L" and "parse_integer_law L" and "length v < 2 ^ 64"
  shows "ParseNetstring L (netstring v @ r) = (Some v, r)"
  using ParseNetstring_accepts [OF assms(1,2) _ assms(3), of "dec_of_nat (length v)" r]
  by (simp add: netstring_def length_field_def)

section \<open>Properties\<close>

text \<open>C31: ParseNetstring accepts exactly the strings that start with an accepted length
  field, a colon, that many bytes and a comma; it returns those bytes and advances the
  input past the comma.\<close>

theorem ParseNetstring_iff:
  assumes "split_law L" and "parse_integer_law L"
  shows "ParseNetstring L s = (Some v, r) \<longleftrightarrow>
    (\<exists>h. s = h @ '':'' @ v @ '','' @ r \<and> length_field h v \<and> length v < 2 ^ 64)"
  using ParseNetstring_accepts [OF assms] ParseNetstring_accepted [OF assms] by blast

theorem ParseNetstring_iff_witness:
  "ParseNetstring ref_libs ''3:foo,4:tail,'' = (Some ''foo'', ''4:tail,'')"
proof -
  have "length_field ''3'' ''foo''"
    by code_simp
  then have "''3:foo,4:tail,'' = ''3'' @ '':'' @ ''foo'' @ '','' @ ''4:tail,'' \<and>
      length_field ''3'' ''foo'' \<and> length ''foo'' < 2 ^ 64"
    by simp
  then show ?thesis
    using ParseNetstring_iff [of ref_libs "''3:foo,4:tail,''" "''foo''" "''4:tail,''"] ref_laws
    by blast
qed

text \<open>C32: A call that fails leaves the input where it was; a call that succeeds has consumed
  the payload and at least a length digit, the colon and the comma.\<close>

theorem ParseNetstring_progress:
  assumes "split_law L" and "parse_integer_law L"
  shows "case ParseNetstring L s of
      (None, r) \<Rightarrow> r = s
    | (Some v, r) \<Rightarrow> length v + length r + 3 \<le> length s"
  using ParseNetstring_None [of L s] ParseNetstring_shorter [OF assms, of s]
  by (fastforce split: prod.splits option.splits)

theorem ParseNetstring_progress_witness:
  "case ParseNetstring ref_libs ''3:foo;'' of
      (None, r) \<Rightarrow> r = ''3:foo;''
    | (Some v, r) \<Rightarrow> length v + length r + 3 \<le> length ''3:foo;''"
  by (rule ParseNetstring_progress) simp_all

text \<open>C33: The guard against leading zeroes looks only at a positive size, so every non-empty
  run of zeroes is taken as the length of the empty payload, although the comment in the
  code says that leading zeroes are rejected.\<close>

theorem ParseNetstring_zeroes:
  assumes "split_law L" and "parse_integer_law L"
  shows "ParseNetstring L (replicate (Suc n) (CHR ''0'') @ '':,'' @ r) = (Some [], r)"
proof -
  have "length_field (replicate (Suc n) (CHR ''0'')) []"
    by (auto simp: length_field_def)
  from ParseNetstring_accepts [OF assms this, of r] show ?thesis
    by simp
qed

theorem ParseNetstring_zeroes_witness:
  "ParseNetstring ref_libs ''00:,tail'' = (Some [], ''tail'')"
  using ParseNetstring_zeroes [of ref_libs 1 "''tail''"] by simp

end
