(* ===== verification/QmqpMail.thy ===== *)
theory QmqpMail
  imports NetstringParser
begin

text \<open>
  \<open>src/djb/QmqpMail.cxx\<close> and \<open>src/djb/QmqpMail.hxx\<close>: the mail as it arrives over QMQP
  and its parser. The four \<open>string_view\<close> members are modelled by the bytes they show;
  \<open>tail\<close> is computed, as in the code, from the position of the remaining input in the
  buffer, one byte to the left.
\<close>

section \<open>The struct and its parser\<close>

record QmqpMail =
  message :: string
  tail :: string
  sender :: string
  recipients :: "string list"

definition empty_mail :: QmqpMail where
  "empty_mail = \<lparr>message = [], tail = [], sender = [], recipients = []\<rparr>"

datatype ParseResult = SUCCESS | MALFORMED | BAD_ADDRESS | TOO_MANY_RECIPIENTS

definition MAX_RECIPIENTS :: nat where
  "MAX_RECIPIENTS = 1024"

text \<open>\<open>MakeStringView(input.begin() - 1, input.end())\<close>, where \<open>input\<close> is what is left
  of \<open>buffer\<close>.\<close>

definition view_from_previous :: "string \<Rightarrow> string \<Rightarrow> string" where
  "view_from_previous buffer input = drop (length buffer - length input - 1) buffer"

text \<open>The \<open>do ... while (!input.empty())\<close> loop. It ends because every round that goes on has
  added a recipient and the number of recipients is checked.\<close>

function parse_recipients ::
  "libs \<Rightarrow> string \<Rightarrow> 'a QmqpMail_scheme \<Rightarrow> ParseResult \<times> 'a QmqpMail_scheme" where
  "parse_recipients L input mail =
     (case ParseNetstring L input of
        (None, _) \<Rightarrow> (MALFORMED, mail)
      | (Some v, input') \<Rightarrow>
          if \<not> VerifyEmailAddress L v then (BAD_ADDRESS, mail)
          else if MAX_RECIPIENTS \<le> length (recipients mail) then (TOO_MANY_RECIPIENTS, mail)
          else let mail' = mail\<lparr>recipients := recipients mail @ [v]\<rparr> in
            if input' \<noteq> [] then parse_recipients L input' mail' else (SUCCESS, mail'))"
  by pat_completeness auto
termination
  by (relation "measure (\<lambda>(L, input, mail). Suc MAX_RECIPIENTS - length (recipients mail))") auto

declare parse_recipients.simps [simp del]

definition Parse ::
  "libs \<Rightarrow> string \<Rightarrow> 'a QmqpMail_scheme \<Rightarrow> ParseResult \<times> 'a QmqpMail_scheme" where
  "Parse L buffer mail =
     (case ParseNetstring L buffer of
        (None, _) \<Rightarrow> (MALFORMED, mail)
      | (Some m, input) \<Rightarrow>
          let mail = mail\<lparr>message := m\<rparr> in
          (case ParseNetstring L input of
             (None, _) \<Rightarrow> (MALFORMED, mail)
           | (Some s, input) \<Rightarrow>
               if \<not> VerifyEmailAddress L s then (BAD_ADDRESS, mail)
               else
                 let mail = mail\<lparr>sender := s, tail := view_from_previous buffer input\<rparr> in
                 parse_recipients L input mail))"

section \<open>The encoding it reads\<close>

text \<open>What a client sends inside the outer netstring: the message, the sender and every
  recipient, each a netstring of its own.\<close>

definition netstrings :: "string list \<Rightarrow> string" where
  "netstrings vs = concat (map netstring vs)"

definition qmqp_payload :: "string \<Rightarrow> string \<Rightarrow> string list \<Rightarrow> string" where
  "qmqp_payload msg sndr rcpts = netstring msg @ netstring sndr @ netstrings rcpts"

text \<open>The same with any accepted length field.\<close>

definition loose_netstring :: "string \<Rightarrow> string \<Rightarrow> bool" where
  "loose_netstring s v \<longleftrightarrow> (\<exists>h. s = h @ '':'' @ v @ '','' \<and> length_field h v \<and> length v < 2 ^ 64)"

lemma netstring_neq_Nil [simp]: "netstring v \<noteq> []"
  by (simp add: netstring_def)

lemma netstrings_simps [simp]:
  "netstrings [] = []"
  "netstrings (v # vs) = netstring v @ netstrings vs"
  by (simp_all add: netstrings_def)

lemma netstrings_append: "netstrings (xs @ ys) = netstrings xs @ netstrings ys"
  by (simp add: netstrings_def)

lemma netstrings_eq_Nil [simp]: "netstrings vs = [] \<longleftrightarrow> vs = []"
  by (cases vs) auto

lemma loose_netstring_netstring: "length v < 2 ^ 64 \<Longrightarrow> loose_netstring (netstring v) v"
  by (auto simp: loose_netstring_def netstring_def length_field_def)

text \<open>\<open>view_from_previous\<close> really is one byte more than the remaining input.\<close>

lemma view_from_previous_append [simp]:
  "view_from_previous (p @ c # input) input = c # input"
  by (simp add: view_from_previous_def)

definition fits64 :: "string \<Rightarrow> bool" where
  "fits64 v \<longleftrightarrow> length v < 2 ^ 64"

lemma fits64_parts: "fits64 (a @ b) \<Longrightarrow> fits64 a \<and> fits64 b"
  by (simp add: fits64_def)

lemma fits64_netstring: "fits64 (netstring v) \<Longrightarrow> fits64 v"
  by (simp add: fits64_def netstring_def)

lemma fits64_payload:
  assumes "fits64 (qmqp_payload msg sndr rcpts)"
  shows "list_all fits64 (msg # sndr # rcpts)"
proof -
  have "fits64 v" if "v \<in> set rcpts" "fits64 (netstrings rcpts)" for v
    using that by (induction rcpts)
      (auto simp: netstrings_def dest!: fits64_parts intro: fits64_netstring)
  with assms show ?thesis
    by (auto simp: qmqp_payload_def list_all_iff dest!: fits64_parts intro: fits64_netstring)
qed

section \<open>The recipients loop\<close>

abbreviation push_recipient :: "string \<Rightarrow> 'a QmqpMail_scheme \<Rightarrow> 'a QmqpMail_scheme" where
  "push_recipient v mail \<equiv> mail\<lparr>recipients := recipients mail @ [v]\<rparr>"

lemma parse_recipients_None:
  "ParseNetstring L input = (None, r) \<Longrightarrow> parse_recipients L input mail = (MALFORMED, mail)"
  by (subst parse_recipients.simps) simp

lemma parse_recipients_Some:
  "ParseNetstring L input = (Some v, r) \<Longrightarrow> parse_recipients L input mail =
     (if \<not> VerifyEmailAddress L v then (BAD_ADDRESS, mail)
      else if MAX_RECIPIENTS \<le> length (recipients mail) then (TOO_MANY_RECIPIENTS, mail)
      else if r \<noteq> [] then parse_recipients L r (push_recipient v mail)
      else (SUCCESS, push_recipient v mail))"
  by (subst parse_recipients.simps) (simp add: Let_def)

lemma parse_recipients_induct [case_names round]:
  assumes "\<And>input mail. (\<And>v r. ParseNetstring L input = (Some v, r) \<Longrightarrow> VerifyEmailAddress L v \<Longrightarrow>
      length (recipients mail) < MAX_RECIPIENTS \<Longrightarrow> r \<noteq> [] \<Longrightarrow> P r (push_recipient v mail)) \<Longrightarrow>
    P input mail"
  shows "P input mail"
proof (induction "Suc MAX_RECIPIENTS - length (recipients mail)" arbitrary: input mail
    rule: less_induct)
  case less
  show ?case
    by (rule assms) (rule less, simp)
qed

lemma parse_recipients_cases [case_names malformed bad_address too_many final another]:
  assumes "parse_recipients L input mail = (res, mail')"
  obtains r where "ParseNetstring L input = (None, r)" "res = MALFORMED" "mail' = mail"
  | v r where "ParseNetstring L input = (Some v, r)" "\<not> VerifyEmailAddress L v"
      "res = BAD_ADDRESS" "mail' = mail"
  | v r where "ParseNetstring L input = (Some v, r)" "VerifyEmailAddress L v"
      "MAX_RECIPIENTS \<le> length (recipients mail)" "res = TOO_MANY_RECIPIENTS" "mail' = mail"
  | v where "ParseNetstring L input = (Some v, [])" "VerifyEmailAddress L v"
      "length (recipients mail) < MAX_RECIPIENTS" "res = SUCCESS" "mail' = push_recipient v mail"
  | v r where "ParseNetstring L input = (Some v, r)" "VerifyEmailAddress L v"
      "length (recipients mail) < MAX_RECIPIENTS" "r \<noteq> []"
      "parse_recipients L r (push_recipient v mail) = (res, mail')"
proof (cases "ParseNetstring L input")
  case (Pair x r)
  show thesis
  proof (cases x)
    case None
    with Pair assms that(1) show thesis
      by (simp add: parse_recipients_None)
  next
    case (Some v)
    with Pair assms that(2-5) show thesis
      by (auto simp: parse_recipients_Some split: if_splits)
  qed
qed

lemma parse_recipients_frame:
  "parse_recipients L input mail = (res, mail') \<Longrightarrow>
     message mail' = message mail \<and> tail mail' = tail mail \<and> sender mail' = sender mail \<and>
     QmqpMail.more mail' = QmqpMail.more mail"
proof (induction input mail rule: parse_recipients_induct [where L = L])
  case (round input mail)
  from round.prems show ?case
    by (cases rule: parse_recipients_cases) (use round.IH in auto)
qed

text \<open>Every recipient recorded by the loop has passed the address check, and the list never
  grows beyond the limit.\<close>

lemma parse_recipients_invariant:
  "parse_recipients L input mail = (res, mail') \<Longrightarrow>
   list_all (VerifyEmailAddress L) (recipients mail) \<Longrightarrow>
   length (recipients mail) \<le> MAX_RECIPIENTS \<Longrightarrow>
   list_all (VerifyEmailAddress L) (recipients mail') \<and>
   length (recipients mail') \<le> MAX_RECIPIENTS"
proof (induction input mail rule: parse_recipients_induct [where L = L])
  case (round input mail)
  from round.prems(1) show ?case
    by (cases rule: parse_recipients_cases) (use round in auto)
qed

text \<open>The loop on canonical input: every recipient is appended in order, up to the limit.\<close>

lemma parse_recipients_netstrings:
  assumes L: "split_law L" "parse_integer_law L"
    and "rcpts \<noteq> []" and "list_all fits64 rcpts" and "list_all (VerifyEmailAddress L) rcpts"
    and "length (recipients mail) \<le> MAX_RECIPIENTS"
  shows "parse_recipients L (netstrings rcpts) mail =
    (if length (recipients mail) + length rcpts \<le> MAX_RECIPIENTS
     then (SUCCESS, mail\<lparr>recipients := recipients mail @ rcpts\<rparr>)
     else (TOO_MANY_RECIPIENTS, mail\<lparr>recipients := recipients mail @
       take (MAX_RECIPIENTS - length (recipients mail)) rcpts\<rparr>))"
  using assms(3-6)
proof (induction rcpts arbitrary: mail)
  case Nil
  then show ?case by simp
next
  case (Cons v vs)
  have "ParseNetstring L (netstring v @ netstrings vs) = (Some v, netstrings vs)"
    using ParseNetstring_netstring [OF L, of v "netstrings vs"] Cons.prems
    by (simp add: fits64_def)
  note step = parse_recipients_Some [OF this, of mail]
  show ?case
  proof (cases "MAX_RECIPIENTS \<le> length (recipients mail)")
    case True
    with Cons.prems show ?thesis
      by (simp add: step)
  next
    case False
    then have "take (MAX_RECIPIENTS - length (recipients mail)) (v # vs) =
        v # take (MAX_RECIPIENTS - Suc (length (recipients mail))) vs"
      by (simp add: take_Cons')
    with False Cons.prems Cons.IH [of "push_recipient v mail"] show ?thesis
      unfolding netstrings_simps(2) step by (cases "vs = []") auto
  qed
qed

text \<open>More generally the loop gets past any canonical prefix it has room for.\<close>

lemma parse_recipients_prefix:
  assumes L: "split_law L" "parse_integer_law L"
    and "list_all fits64 good" and "list_all (VerifyEmailAddress L) good"
    and "length (recipients mail) + length good \<le> MAX_RECIPIENTS" and "r \<noteq> []"
  shows "parse_recipients L (netstrings good @ r) mail =
    parse_recipients L r (mail\<lparr>recipients := recipients mail @ good\<rparr>)"
  using assms(3-5)
proof (induction good arbitrary: mail)
  case Nil
  then show ?case by simp
next
  case (Cons v vs)
  have "ParseNetstring L (netstring v @ netstrings vs @ r) = (Some v, netstrings vs @ r)"
    using ParseNetstring_netstring [OF L, of v "netstrings vs @ r"] Cons.prems
    by (simp add: fits64_def)
  note step = parse_recipients_Some [OF this, of mail]
  from Cons.prems Cons.IH [of "push_recipient v mail"] show ?case
    unfolding netstrings_simps(2) append_assoc step by (simp add: \<open>r \<noteq> []\<close>)
qed

text \<open>Conversely a successful loop has read a sequence of netstrings and nothing else.\<close>

lemma parse_recipients_success:
  assumes L: "split_law L" "parse_integer_law L"
  shows "parse_recipients L input mail = (SUCCESS, mail') \<Longrightarrow>
    \<exists>ss vs. vs \<noteq> [] \<and> list_all2 loose_netstring ss vs \<and> input = concat ss \<and>
      recipients mail' = recipients mail @ vs"
proof (induction input mail rule: parse_recipients_induct [where L = L])
  case (round input mail)
  have loose: "\<exists>s. loose_netstring s v \<and> input = s @ r"
    if "ParseNetstring L input = (Some v, r)" for v r
    using ParseNetstring_accepted [OF L that] unfolding loose_netstring_def by force
  from round.prems show ?case
  proof (cases rule: parse_recipients_cases)
    case (final v)
    with loose obtain s where "loose_netstring s v" "input = s" by force
    with final show ?thesis
      by (intro exI [of _ "[s]"] exI [of _ "[v]"]) simp
  next
    case (another v r)
    with round.IH obtain ss vs where vs: "list_all2 loose_netstring ss vs" "r = concat ss"
        "recipients mail' = recipients mail @ v # vs"
      by fastforce
    from loose another(1) obtain s where "loose_netstring s v" "input = s @ r" by blast
    with vs show ?thesis
      by (intro exI [of _ "s # ss"] exI [of _ "v # vs"]) simp
  qed simp_all
qed

section \<open>The whole parser\<close>

lemma Parse_Some:
  assumes "ParseNetstring L buffer = (Some m, input)"
    and "ParseNetstring L input = (Some s, input')"
  shows "Parse L buffer mail =
    (if VerifyEmailAddress L s
     then parse_recipients L input'
       (mail\<lparr>message := m, sender := s, tail := view_from_previous buffer input'\<rparr>)
     else (BAD_ADDRESS, mail\<lparr>message := m\<rparr>))"
  using assms by (simp add: Parse_def Let_def)

lemma Parse_success_cases:
  assumes "Parse L buffer mail = (SUCCESS, mail')"
  obtains m s r1 r2 where "ParseNetstring L buffer = (Some m, r1)"
    "ParseNetstring L r1 = (Some s, r2)" "VerifyEmailAddress L s"
    "parse_recipients L r2
       (mail\<lparr>message := m, sender := s, tail := view_from_previous buffer r2\<rparr>) = (SUCCESS, mail')"
  using assms
  by (auto simp: Parse_def Let_def split: prod.splits option.splits if_splits)

text \<open>The first two netstrings of a canonical payload.\<close>

lemma Parse_payload:
  assumes L: "split_law L" "parse_integer_law L" and "fits64 msg" and "fits64 sndr"
  shows "Parse L (netstring msg @ netstring sndr @ r) mail =
    (if VerifyEmailAddress L sndr
     then parse_recipients L r (mail\<lparr>message := msg, sender := sndr, tail := '','' @ r\<rparr>)
     else (BAD_ADDRESS, mail\<lparr>message := msg\<rparr>))"
proof -
  let ?buffer = "netstring msg @ netstring sndr @ r"
  have msg: "ParseNetstring L ?buffer = (Some msg, netstring sndr @ r)"
    and sndr: "ParseNetstring L (netstring sndr @ r) = (Some sndr, r)"
    using assms ParseNetstring_netstring [OF L] by (simp_all add: fits64_def)
  have buffer: "?buffer =
      (netstring msg @ dec_of_nat (length sndr) @ '':'' @ sndr) @ CHR '','' # r"
    by (simp add: netstring_def)
  have "view_from_previous ?buffer r = '','' @ r"
    unfolding buffer view_from_previous_append by simp
  then show ?thesis
    unfolding Parse_Some [OF msg sndr] by simp
qed

text \<open>The envelope invariant a parsed mail has: the sender and every recipient verified, at
  least one and at most 1024 recipients, and the tail is the comma that ends the sender
  followed by netstrings of exactly these recipients.\<close>

definition envelope_ok :: "libs \<Rightarrow> 'a QmqpMail_scheme \<Rightarrow> bool" where
  "envelope_ok L mail \<longleftrightarrow>
     VerifyEmailAddress L (sender mail) \<and>
     list_all (VerifyEmailAddress L) (recipients mail) \<and>
     recipients mail \<noteq> [] \<and> length (recipients mail) \<le> MAX_RECIPIENTS \<and>
     (\<exists>ss. list_all2 loose_netstring ss (recipients mail) \<and> tail mail = '','' @ concat ss)"

lemma Parse_sound:
  assumes L: "split_law L" "parse_integer_law L"
    and parse: "Parse L buffer mail = (SUCCESS, mail')"
    and fresh: "recipients mail = []"
  shows "envelope_ok L mail' \<and>
    (\<exists>s1 s2. loose_netstring s1 (message mail') \<and> loose_netstring (s2 @ '','') (sender mail') \<and>
      buffer = s1 @ s2 @ tail mail')"
  using parse
proof (rule Parse_success_cases)
  fix m s r1 r2
  let ?mail = "mail\<lparr>message := m, sender := s, tail := view_from_previous buffer r2\<rparr>"
  assume m: "ParseNetstring L buffer = (Some m, r1)" and s: "ParseNetstring L r1 = (Some s, r2)"
    and ok: "VerifyEmailAddress L s" and loop: "parse_recipients L r2 ?mail = (SUCCESS, mail')"
  obtain h1 h2 where h: "buffer = h1 @ '':'' @ m @ '','' @ r1" "length_field h1 m" "length m < 2 ^ 64"
    "r1 = h2 @ '':'' @ s @ '','' @ r2" "length_field h2 s" "length s < 2 ^ 64"
    using ParseNetstring_accepted [OF L m] ParseNetstring_accepted [OF L s] by blast
  then have buffer: "buffer = (h1 @ '':'' @ m @ '','' @ h2 @ '':'' @ s) @ CHR '','' # r2"
    by simp
  have tail: "view_from_previous buffer r2 = '','' @ r2"
    unfolding buffer view_from_previous_append by simp
  obtain ss vs where vs: "vs \<noteq> []" "list_all2 loose_netstring ss vs" "r2 = concat ss"
      "recipients mail' = vs"
    using parse_recipients_success [OF L loop] fresh by auto
  have frame: "message mail' = m" "sender mail' = s" "tail mail' = '','' @ r2"
    using parse_recipients_frame [OF loop] tail by simp_all
  have "list_all (VerifyEmailAddress L) (recipients mail') \<and>
      length (recipients mail') \<le> MAX_RECIPIENTS"
    using parse_recipients_invariant [OF loop] fresh by simp
  with vs frame ok have "envelope_ok L mail'"
    by (auto simp: envelope_ok_def)
  moreover have "loose_netstring (h1 @ '':'' @ m @ '','') m"
      "loose_netstring ((h2 @ '':'' @ s) @ '','') s"
    using h unfolding loose_netstring_def by auto
  ultimately show ?thesis
    using h(1,4) frame by fastforce
qed

lemma parse_qmqp_payload:
  assumes L: "split_law L" "parse_integer_law L"
    and "list_all fits64 (msg # sndr # rcpts)"
    and "list_all (VerifyEmailAddress L) (sndr # rcpts)"
    and "rcpts \<noteq> []" and "length rcpts \<le> MAX_RECIPIENTS" and "recipients mail = []"
  shows "Parse L (qmqp_payload msg sndr rcpts) mail =
    (SUCCESS, mail\<lparr>message := msg, sender := sndr, tail := '','' @ netstrings rcpts,
       recipients := rcpts\<rparr>)"
proof -
  have "Parse L (qmqp_payload msg sndr rcpts) mail = parse_recipients L (netstrings rcpts)
      (mail\<lparr>message := msg, sender := sndr, tail := '','' @ netstrings rcpts\<rparr>)"
    using assms by (simp add: qmqp_payload_def Parse_payload [OF L])
  then show ?thesis
    using assms parse_recipients_netstrings [OF L, of rcpts
      "mail\<lparr>message := msg, sender := sndr, tail := '','' @ netstrings rcpts\<rparr>"] by simp
qed

section \<open>Properties\<close>

text \<open>C18: Round trip. Any message with a verified sender and between one and 1024 verified
  recipients, encoded as the netstrings of QMQP, is parsed back to exactly these fields,
  and the tail is the comma that ends the sender followed by the recipients' netstrings.\<close>

theorem Parse_qmqp_payload:
  assumes L: "split_law L" "parse_integer_law L"
    and "list_all fits64 (msg # sndr # rcpts)"
    and "list_all (VerifyEmailAddress L) (sndr # rcpts)"
    and "rcpts \<noteq> []" and "length rcpts \<le> MAX_RECIPIENTS" and "recipients mail = []"
  shows "Parse L (qmqp_payload msg sndr rcpts) mail =
    (SUCCESS, mail\<lparr>message := msg, sender := sndr, tail := '','' @ netstrings rcpts,
       recipients := rcpts\<rparr>)"
  using assms by (rule parse_qmqp_payload)

theorem Parse_qmqp_payload_witness:
  "Parse ref_libs (qmqp_payload ''Subject: Hi'' ''a@b'' [''c@d'', ''e@f'']) empty_mail =
    (SUCCESS, \<lparr>message = ''Subject: Hi'', tail = '',3:c@d,3:e@f,'', sender = ''a@b'',
       recipients = [''c@d'', ''e@f'']\<rparr>)"
proof -
  have "list_all (VerifyEmailAddress ref_libs) [''a@b'', ''c@d'', ''e@f'']"
    and "netstrings [''c@d'', ''e@f''] = ''3:c@d,3:e@f,''"
    by code_simp+
  then show ?thesis
    using Parse_qmqp_payload [of ref_libs "''Subject: Hi''" "''a@b''" "[''c@d'', ''e@f'']" empty_mail]
    by (simp add: fits64_def MAX_RECIPIENTS_def empty_mail_def)
qed

text \<open>C17: Soundness. When the parser reports success the envelope is in order (verified
  sender, one to 1024 verified recipients, a tail of netstrings of exactly the recipients)
  and the buffer is the message, the sender and that tail, with nothing left over.\<close>

theorem Parse_success_sound:
  assumes "split_law L" and "parse_integer_law L" and "recipients mail = []"
    and "Parse L buffer mail = (SUCCESS, mail')"
  shows "envelope_ok L mail' \<and>
    (\<exists>s1 s2. loose_netstring s1 (message mail') \<and> loose_netstring (s2 @ '','') (sender mail') \<and>
      buffer = s1 @ s2 @ tail mail')"
  using Parse_sound [OF assms(1,2,4,3)] .

theorem Parse_success_sound_witness:
  "envelope_ok ref_libs (snd (Parse ref_libs ''1:x,3:a@b,3:c@d,'' empty_mail))"
proof -
  have "fst (Parse ref_libs ''1:x,3:a@b,3:c@d,'' empty_mail) = SUCCESS"
    by code_simp
  then have "Parse ref_libs ''1:x,3:a@b,3:c@d,'' empty_mail =
      (SUCCESS, snd (Parse ref_libs ''1:x,3:a@b,3:c@d,'' empty_mail))"
    by (simp add: prod_eq_iff)
  from Parse_success_sound [OF _ _ _ this] show ?thesis
    by (simp add: empty_mail_def)
qed

text \<open>The hard limit on recipients. With more than 1024 recipients the parser refuses the
  mail, having recorded exactly the first 1024.\<close>

lemma Parse_too_many:
  assumes L: "split_law L" "parse_integer_law L"
    and "list_all fits64 (msg # sndr # rcpts)"
    and "list_all (VerifyEmailAddress L) (sndr # rcpts)"
    and "MAX_RECIPIENTS < length rcpts" and "recipients mail = []"
  shows "fst (Parse L (qmqp_payload msg sndr rcpts) mail) = TOO_MANY_RECIPIENTS \<and>
    recipients (snd (Parse L (qmqp_payload msg sndr rcpts) mail)) = take MAX_RECIPIENTS rcpts"
proof -
  have "Parse L (qmqp_payload msg sndr rcpts) mail = parse_recipients L (netstrings rcpts)
      (mail\<lparr>message := msg, sender := sndr, tail := '','' @ netstrings rcpts\<rparr>)"
    using assms by (simp add: qmqp_payload_def Parse_payload [OF L])
  moreover from assms have "rcpts \<noteq> []"
    by auto
  ultimately show ?thesis
    using assms parse_recipients_netstrings [OF L, of rcpts
      "mail\<lparr>message := msg, sender := sndr, tail := '','' @ netstrings rcpts\<rparr>"] by simp
qed

text \<open>A sender or a recipient that fails the address check ends the parse with
  \<open>BAD_ADDRESS\<close>, whatever follows it; the recipients before the bad one are recorded.\<close>

lemma Parse_bad_address:
  assumes L: "split_law L" "parse_integer_law L"
    and "list_all fits64 (msg # sndr # good @ [bad])"
    and "list_all (VerifyEmailAddress L) (sndr # good)" and "\<not> VerifyEmailAddress L bad"
    and "length good \<le> MAX_RECIPIENTS" and "recipients mail = []"
  shows "Parse L (netstring msg @ netstring bad @ r) mail = (BAD_ADDRESS, mail\<lparr>message := msg\<rparr>) \<and>
    Parse L (qmqp_payload msg sndr (good @ [bad]) @ r) mail =
      (BAD_ADDRESS, mail\<lparr>message := msg, sender := sndr,
         tail := '','' @ netstrings (good @ [bad]) @ r, recipients := good\<rparr>)"
proof
  show "Parse L (netstring msg @ netstring bad @ r) mail = (BAD_ADDRESS, mail\<lparr>message := msg\<rparr>)"
    using assms by (simp add: Parse_payload [OF L])
  let ?mail = "mail\<lparr>message := msg, sender := sndr, tail := '','' @ netstrings (good @ [bad]) @ r\<rparr>"
  have "Parse L (qmqp_payload msg sndr (good @ [bad]) @ r) mail =
      parse_recipients L (netstrings good @ netstring bad @ r) ?mail"
    using assms by (simp add: qmqp_payload_def Parse_payload [OF L] netstrings_append)
  also have "\<dots> = parse_recipients L (netstring bad @ r) (?mail\<lparr>recipients := good\<rparr>)"
    using assms by (subst parse_recipients_prefix [OF L]) simp_all
  also have "ParseNetstring L (netstring bad @ r) = (Some bad, r)"
    using assms ParseNetstring_netstring [OF L] by (simp add: fits64_def)
  then have "parse_recipients L (netstring bad @ r) (?mail\<lparr>recipients := good\<rparr>) =
      (BAD_ADDRESS, ?mail\<lparr>recipients := good\<rparr>)"
    using assms by (simp add: parse_recipients_Some)
  finally show "Parse L (qmqp_payload msg sndr (good @ [bad]) @ r) mail =
      (BAD_ADDRESS, mail\<lparr>message := msg, sender := sndr,
         tail := '','' @ netstrings (good @ [bad]) @ r, recipients := good\<rparr>)"
    by simp
qed

end
