(* ===== verification/MutableMail.thy ===== *)
theory MutableMail
  imports QmqpMail
begin

text \<open>
  \<open>src/MutableMail.hxx\<close> and \<open>src/MutableMail.cxx\<close>: the mail as the handler may edit it.
  The \<open>buffer\<close> that the views of the base struct point into is an array or null; the
  views are modelled by their bytes, so moving the object (which keeps the array where it
  is) is the identity.
\<close>

section \<open>The struct\<close>

record MutableMail = QmqpMail +
  buffer :: "string option"
  sender_buffer :: string
  headers :: "string list"
  account :: string

definition new_mutable_mail :: "string option \<Rightarrow> MutableMail" where
  "new_mutable_mail b = \<lparr>message = [], tail = [], sender = [], recipients = [],
     buffer = b, sender_buffer = [], headers = [], account = []\<rparr>"

text \<open>The bytes of a nullable array; \<open>std::span\<close> of a null array is empty.\<close>

definition array_bytes :: "string option \<Rightarrow> string" where
  "array_bytes b = (case b of None \<Rightarrow> [] | Some s \<Rightarrow> s)"

section \<open>Its methods\<close>

definition Free :: "'a MutableMail_scheme \<Rightarrow> 'a MutableMail_scheme" where
  "Free m = m\<lparr>message := [], tail := [], sender := [], recipients := [],
     buffer := None, sender_buffer := [], headers := [], account := []\<rparr>"

definition MutableMail_Parse ::
  "libs \<Rightarrow> 'a MutableMail_scheme \<Rightarrow> ParseResult \<times> 'a MutableMail_scheme" where
  "MutableMail_Parse L m = Parse L (array_bytes (buffer m)) m"

definition SetSender :: "string \<Rightarrow> 'a MutableMail_scheme \<Rightarrow> 'a MutableMail_scheme" where
  "SetSender s m = m\<lparr>sender_buffer := s, sender := s\<rparr>"

definition MutableMail_InsertHeader ::
  "libs \<Rightarrow> string \<Rightarrow> string \<Rightarrow> 'a MutableMail_scheme \<Rightarrow> 'a MutableMail_scheme" where
  "MutableMail_InsertHeader L name val m =
     m\<lparr>headers := fmt_format L (''{}: {}'' @ CRLF) [FStr name, FStr val] # headers m\<rparr>"

section \<open>What they keep\<close>

lemma Parse_frame:
  "Parse L b m = (res, m') \<Longrightarrow> QmqpMail.more m' = QmqpMail.more m"
  by (auto simp: Parse_def Let_def split: prod.splits option.splits if_splits
      dest: parse_recipients_frame)

lemma Parse_frame_mutable:
  assumes "Parse L b (m :: 'a MutableMail_scheme) = (res, m')"
  shows "buffer m' = buffer m" and "sender_buffer m' = sender_buffer m"
    and "headers m' = headers m" and "account m' = account m"
  using Parse_frame [OF assms] by (cases m; cases m'; simp)+

text \<open>The envelope of a mail depends on the four fields of the base struct only, and setting a
  verified sender keeps it in order: the tail does not contain the sender.\<close>

lemma envelope_ok_SetSender [wf_intros]:
  "envelope_ok L m \<Longrightarrow> VerifyEmailAddress L s \<Longrightarrow> envelope_ok L (SetSender s m)"
  by (simp add: envelope_ok_def SetSender_def)

lemma envelope_ok_InsertHeader [wf_intros]:
  "envelope_ok L m \<Longrightarrow> envelope_ok L (MutableMail_InsertHeader L n v m)"
  by (simp add: envelope_ok_def MutableMail_InsertHeader_def)

lemma envelope_ok_account [wf_intros]:
  "envelope_ok L m \<Longrightarrow> envelope_ok L (m\<lparr>account := a\<rparr>)"
  by (simp add: envelope_ok_def)

end
