(* ===== verification/QmqpRelays.thy ===== *)
theory QmqpRelays
  imports Relay MutableMail
begin

text \<open>
  \<open>src/BasicRelay.cxx\<close> and \<open>src/RemoteRelay.cxx\<close>: the part shared by the relays that talk
  QMQP, and the one that connects to a remote server. The request is the list of buffers
  that the constructor assembles; \<open>NetstringClient::Request()\<close> takes it over and sends its
  concatenation as one netstring.
\<close>

section \<open>The common part\<close>

text \<open>\<open>client_request\<close> is what the \<open>NetstringClient\<close> was given, \<open>None\<close> before that.\<close>

record BasicRelay =
  request :: "string list"
  client_request :: "string list option"

definition BasicRelay_new :: "libs \<Rightarrow> 'a QmqpMail_scheme \<Rightarrow> string list \<Rightarrow> BasicRelay" where
  "BasicRelay_new L mail additional_headers =
     (let req = additional_headers @ [message mail];
          req = NetstringGenerator L req True;
          req = req @ [NetstringHeader L (length (sender mail))];
          req = req @ [sender mail];
          req = req @ [tail mail]
      in \<lparr>request = req, client_request = None\<rparr>)"

text \<open>The client is created with a limit: a longer response is an error of the client.\<close>

definition CLIENT_MAX_SIZE :: nat where
  "CLIENT_MAX_SIZE = 256"

definition client_Request :: "'a BasicRelay_scheme \<Rightarrow> 'a BasicRelay_scheme" where
  "client_Request r = r\<lparr>client_request := Some (request r), request := []\<rparr>"

definition IsValidQmqpResponse :: "string \<Rightarrow> bool" where
  "IsValidQmqpResponse payload \<longleftrightarrow>
     payload \<noteq> [] \<and> (hd payload = CHR ''K'' \<or> hd payload = CHR ''D'' \<or> hd payload = CHR ''Z'')"

definition BasicRelay_OnNetstringResponse :: "string option \<Rightarrow> 'r \<Rightarrow> (unit, 'r) outcome" where
  "BasicRelay_OnNetstringResponse payload r =
     (if \<not> IsValidQmqpResponse (array_bytes payload)
      then Finished () r (RelayError ''Zmalformed relay response'')
      else Finished () r (RelayResponse (array_bytes payload)))"

definition BasicRelay_OnNetstringError :: "'r \<Rightarrow> (unit, 'r) outcome" where
  "BasicRelay_OnNetstringError r = Finished () r (RelayError ''Zrelay failed'')"

lemma IsValidQmqpResponse_valid: "IsValidQmqpResponse s = valid_response s"
  by (auto simp: IsValidQmqpResponse_def valid_response_def)

lemma BasicRelay_call_ok:
  "BasicRelay_OnNetstringResponse p r = Finished u r' c \<Longrightarrow> r' = r \<and>
    (length (array_bytes p) \<le> CLIENT_MAX_SIZE \<longrightarrow> call_ok c)"
  "BasicRelay_OnNetstringError r = Finished u r' c \<Longrightarrow> call_ok c \<and> r' = r"
  by (auto simp: BasicRelay_OnNetstringResponse_def BasicRelay_OnNetstringError_def
      IsValidQmqpResponse_valid good_response_def CLIENT_MAX_SIZE_def split: if_splits)

lemma BasicRelay_finished [simp]:
  "BasicRelay_OnNetstringResponse p r \<noteq> Running u r'"
  "BasicRelay_OnNetstringError r \<noteq> Running u r'"
  "BasicRelay_OnNetstringResponse p r \<noteq> Crashed x"
  "BasicRelay_OnNetstringError r \<noteq> Crashed x"
  by (simp_all add: BasicRelay_OnNetstringResponse_def BasicRelay_OnNetstringError_def)

section \<open>The request on the wire\<close>

text \<open>The payload is in the relay until it is handed to the client.\<close>

definition wire_payload :: "'a BasicRelay_scheme \<Rightarrow> string" where
  "wire_payload r = concat (case client_request r of None \<Rightarrow> request r | Some q \<Rightarrow> q)"

lemma wire_payload_Request [simp]:
  "client_request r = None \<Longrightarrow> wire_payload (client_Request r) = wire_payload r"
  by (simp add: wire_payload_def client_Request_def)

text \<open>Headers and message become one netstring, the sender another; its comma and the
  recipients are the tail.\<close>

lemma wire_payload_new:
  assumes "netstring_generator_law L" and "netstring_header_law L"
  shows "wire_payload (BasicRelay_new L mail hs) =
    netstring (concat hs @ message mail) @ dec_of_nat (length (sender mail)) @ '':'' @
    sender mail @ tail mail"
  using assms
  by (simp add: wire_payload_def BasicRelay_new_def netstring_generator_law_def
      netstring_header_law_def)

lemma wire_payload_tail:
  assumes "netstring_generator_law L" and "netstring_header_law L"
    and "tail mail = '','' @ t"
  shows "wire_payload (BasicRelay_new L mail hs) =
    netstring (concat hs @ message mail) @ netstring (sender mail) @ t"
  using assms by (simp add: wire_payload_new netstring_def)

text \<open>The recipients loop reads any accepted netstrings back, not only canonical ones.\<close>

lemma parse_recipients_loose:
  assumes L: "split_law L" "parse_integer_law L"
    and "list_all2 loose_netstring ss vs" and "vs \<noteq> []"
    and "list_all (VerifyEmailAddress L) vs"
    and "length (recipients mail) + length vs \<le> MAX_RECIPIENTS"
  shows "parse_recipients L (concat ss) mail =
    (SUCCESS, mail\<lparr>recipients := recipients mail @ vs\<rparr>)"
  using assms(3-6)
proof (induction ss vs arbitrary: mail rule: list_all2_induct)
  case Nil
  then show ?case by simp
next
  case (Cons s ss v vs)
  then obtain h where h: "s = h @ '':'' @ v @ '',''" "length_field h v" "length v < 2 ^ 64"
    by (auto simp: loose_netstring_def)
  have "ParseNetstring L (s @ concat ss) = (Some v, concat ss)"
    using ParseNetstring_accepts [OF L h(2,3), of "concat ss"] h(1) by simp
  note step = parse_recipients_Some [OF this, of mail]
  show ?case
  proof (cases "vs = []")
    case True
    with Cons.hyps have "ss = []" by simp
    with True Cons.prems show ?thesis
      using step by simp
  next
    case False
    with Cons.hyps have "concat ss \<noteq> []"
      by (cases vs) (auto simp: list_all2_Cons2 loose_netstring_def)
    with False Cons.prems Cons.IH [of "push_recipient v mail"] show ?thesis
      using step by simp
  qed
qed

section \<open>The remote relay\<close>

text \<open>\<open>connecting\<close> holds the address and the timeout in seconds given to \<open>ConnectSocket\<close>.\<close>

record RemoteRelay = BasicRelay +
  connecting :: "(socket_address \<times> nat) option"

definition RemoteRelay_new :: "libs \<Rightarrow> 'a QmqpMail_scheme \<Rightarrow> string list \<Rightarrow> RemoteRelay" where
  "RemoteRelay_new L mail hs =
     BasicRelay.extend (BasicRelay_new L mail hs) \<lparr>connecting = None\<rparr>"

definition RemoteRelay_Start :: "socket_address \<Rightarrow> RemoteRelay \<Rightarrow> RemoteRelay" where
  "RemoteRelay_Start address r = r\<lparr>connecting := Some (address, 20)\<rparr>"

definition OnSocketConnectSuccess :: "RemoteRelay \<Rightarrow> (unit, RemoteRelay) outcome" where
  "OnSocketConnectSuccess r = Running () (client_Request (r\<lparr>connecting := None\<rparr>))"

definition OnSocketConnectError :: "RemoteRelay \<Rightarrow> (unit, RemoteRelay) outcome" where
  "OnSocketConnectError r = Finished () r (RelayError ''Zconnect failed'')"

datatype remote_event =
    ConnectSuccess
  | ConnectError
  | RemoteResponse "string option"
  | RemoteClientError

fun remote_step :: "remote_event \<Rightarrow> RemoteRelay \<Rightarrow> (unit, RemoteRelay) outcome" where
  "remote_step ConnectSuccess r = OnSocketConnectSuccess r"
| "remote_step ConnectError r = OnSocketConnectError r"
| "remote_step (RemoteResponse payload) r = BasicRelay_OnNetstringResponse payload r"
| "remote_step RemoteClientError r = BasicRelay_OnNetstringError r"

text \<open>The connect callbacks come while connecting, those of the client once it has the request.\<close>

fun remote_enabled :: "RemoteRelay \<Rightarrow> remote_event \<Rightarrow> bool" where
  "remote_enabled r ConnectSuccess = (connecting r \<noteq> None)"
| "remote_enabled r ConnectError = (connecting r \<noteq> None)"
| "remote_enabled r (RemoteResponse payload) =
     (client_request r \<noteq> None \<and> length (array_bytes payload) \<le> CLIENT_MAX_SIZE)"
| "remote_enabled r RemoteClientError = (client_request r \<noteq> None)"

text \<open>The request is handed to the client exactly once, when the connection is established.\<close>

definition remote_inv :: "RemoteRelay \<Rightarrow> bool" where
  "remote_inv r \<longleftrightarrow> connecting r = None \<or> client_request r = None"

interpretation remote: relay_operation remote_step remote_enabled "\<lambda>_. False" remote_inv
proof
  fix r e u r' c x
  show "remote_inv r'" if "remote_inv r" "remote_enabled r e" "remote_step e r = Running u r'"
    using that by (cases e)
      (auto simp: remote_inv_def OnSocketConnectSuccess_def OnSocketConnectError_def client_Request_def)
  show "call_ok c" if "remote_inv r" "remote_enabled r e" "remote_step e r = Finished u r' c"
    using that(2,3) by (cases e)
      (auto simp: OnSocketConnectSuccess_def OnSocketConnectError_def dest: BasicRelay_call_ok)
  show "remote_step e r \<noteq> Crashed x"
    by (cases e) (simp_all add: OnSocketConnectSuccess_def OnSocketConnectError_def)
qed

lemma remote_inv_Start: "remote_inv (RemoteRelay_Start a (RemoteRelay_new L mail hs))"
  by (simp add: remote_inv_def RemoteRelay_Start_def RemoteRelay_new_def BasicRelay_new_def
      BasicRelay.extend_def Let_def)

lemma wire_payload_Remote:
  "wire_payload (RemoteRelay_Start a (RemoteRelay_new L mail hs)) = wire_payload (BasicRelay_new L mail hs)"
  by (simp add: wire_payload_def RemoteRelay_Start_def RemoteRelay_new_def BasicRelay_new_def
      BasicRelay.extend_def Let_def)

lemma relayed_payload:
  assumes "split_law L" and "parse_integer_law L"
    and "netstring_generator_law L" and "netstring_header_law L"
    and "envelope_ok L mail" and "fits64 (concat hs @ message mail)" and "fits64 (sender mail)"
    and "recipients fresh = []"
  shows "Parse L (wire_payload (BasicRelay_new L mail hs)) fresh =
    (SUCCESS, fresh\<lparr>message := concat hs @ message mail, sender := sender mail,
       tail := tail mail, recipients := recipients mail\<rparr>)"
proof -
  obtain ss where ss: "list_all2 loose_netstring ss (recipients mail)" "tail mail = '','' @ concat ss"
    using assms(5) by (auto simp: envelope_ok_def)
  have wire: "wire_payload (BasicRelay_new L mail hs) =
      netstring (concat hs @ message mail) @ netstring (sender mail) @ concat ss"
    using assms(3,4) ss(2) by (rule wire_payload_tail)
  show ?thesis
    using assms ss unfolding wire
    by (simp add: Parse_payload parse_recipients_loose envelope_ok_def)
qed

text \<open>A response is passed on to the client only if it is not empty and starts with one
  of the three QMQP codes; anything else becomes a temporary failure.\<close>

lemma relay_response_checked:
  "BasicRelay_OnNetstringResponse payload r =
    Finished () r
      (if valid_response (array_bytes payload) then RelayResponse (array_bytes payload)
       else RelayError ''Zmalformed relay response'')"
  by (simp add: BasicRelay_OnNetstringResponse_def IsValidQmqpResponse_valid)

end
