(* ===== verification/Spawn.thy ===== *)
theory Spawn
  imports Relay
begin

text \<open>
  How \<open>ExecRelay::Start()\<close> and \<open>RawExecRelay::Start()\<close> prepare a child process: the argument
  arrays on the stack, the signal attributes and the file actions that are passed to
  \<open>pidfd_spawn()\<close>; and what these mean for the descriptors the child starts with, as
  POSIX defines \<open>posix_spawn_file_actions_adddup2()\<close> and the close-on-exec flag.
\<close>

section \<open>The request to the system\<close>

text \<open>The answers to \<open>CreatePipe()\<close> (the descriptors of its two ends, to read and to write), for
  the standard input and the standard output, and to \<open>pidfd_spawn()\<close> (an error number, or 0).\<close>

record spawn_env =
  stdin_pipe :: "(nat \<times> nat) option"
  stdout_pipe :: "(nat \<times> nat) option"
  spawn_error :: int

type_synonym file_action = "nat \<times> nat"

abbreviation (input) STDIN_FILENO :: nat where "STDIN_FILENO \<equiv> 0"
abbreviation (input) STDOUT_FILENO :: nat where "STDOUT_FILENO \<equiv> 1"
abbreviation (input) STDERR_FILENO :: nat where "STDERR_FILENO \<equiv> 2"

definition SIGPIPE :: int where "SIGPIPE = 13"

datatype spawn_flag = POSIX_SPAWN_SETSIGDEF | POSIX_SPAWN_SETSIGMASK

record spawn_attr =
  sigmask :: "int list"
  sigdefault :: "int list"
  flags :: "spawn_flag list"

record spawn_request =
  spawn_path :: string
  file_actions :: "file_action list"
  spawn_attrs :: spawn_attr
  spawn_argv :: "string list"
  spawn_envp :: "string list"

text \<open>The attributes: one signal set is passed empty as the mask and then, with \<open>SIGPIPE\<close> added,
  as the signals that get their default action.\<close>

definition spawn_attributes :: spawn_attr where
  "spawn_attributes =
     (let attr = \<lparr>sigmask = [], sigdefault = [], flags = []\<rparr>;
          signals = [];
          attr = attr\<lparr>sigmask := signals\<rparr>;
          signals = SIGPIPE # signals;
          attr = attr\<lparr>sigdefault := signals\<rparr>
      in attr\<lparr>flags := [POSIX_SPAWN_SETSIGDEF, POSIX_SPAWN_SETSIGMASK]\<rparr>)"

text \<open>The loop that fills an array of \<open>capacity\<close> pointers to C strings, from index \<open>n\<close> on, and the
  store of the null pointer that ends it. A store outside of the array is a crash.\<close>

fun fill_array :: "nat \<Rightarrow> nat \<Rightarrow> string list \<Rightarrow> crash + string list" where
  "fill_array capacity n [] = (if n < capacity then Inr [] else Inl BufferOverflow)"
| "fill_array capacity n (i # rest) =
     (if n < capacity
      then and_then (fill_array capacity (Suc n) rest) (\<lambda>filled. Inr (c_str i # filled))
      else Inl BufferOverflow)"

lemma fill_array_eq:
  "fill_array capacity n ss =
    (if n + length ss < capacity then Inr (map c_str ss) else Inl BufferOverflow)"
  by (induction ss arbitrary: n) auto

text \<open>All of the arguments of \<open>pidfd_spawn()\<close>; the program is \<open>argv[0]\<close>.\<close>

definition prepare_spawn :: "Action \<Rightarrow> file_action list \<Rightarrow> crash + spawn_request" where
  "prepare_spawn action fas =
     and_then (fill_array (MAX_EXEC + 1) 0 (exec action)) (\<lambda>argv.
     and_then (fill_array (MAX_ENV + 1) 0 (env action)) (\<lambda>envp.
     Inr \<lparr>spawn_path = hd argv, file_actions = fas, spawn_attrs = spawn_attributes, spawn_argv = argv, spawn_envp = envp\<rparr>))"

definition spawn_request_of :: "Action \<Rightarrow> file_action list \<Rightarrow> spawn_request" where
  "spawn_request_of a fas = \<lparr>spawn_path = c_str (hd (exec a)), file_actions = fas, spawn_attrs = spawn_attributes,
     spawn_argv = map c_str (exec a), spawn_envp = map c_str (env a)\<rparr>"

text \<open>What \<open>action_ok\<close> says of an action is what its two loops need.\<close>

lemma prepare_spawn_ok [simp]:
  "exec_ok a \<Longrightarrow> prepare_spawn a fas = Inr (spawn_request_of a fas)"
  by (simp add: prepare_spawn_def exec_ok_def fill_array_eq spawn_request_of_def hd_map)

lemma prepare_spawn_Inr:
  "prepare_spawn a fas = Inr q \<Longrightarrow> exec a \<noteq> [] \<Longrightarrow> q = spawn_request_of a fas"
  by (auto simp: prepare_spawn_def fill_array_eq spawn_request_of_def hd_map and_then_Inr
      split: if_splits)

lemma spawn_attributes_eq:
  "spawn_attributes = \<lparr>sigmask = [], sigdefault = [SIGPIPE],
     flags = [POSIX_SPAWN_SETSIGDEF, POSIX_SPAWN_SETSIGMASK]\<rparr>"
  by (simp add: spawn_attributes_def)

section \<open>The signals of the child\<close>

text \<open>A child inherits the blocked and the ignored signals of the process, unless the attributes
  say otherwise.\<close>

record process_signals =
  blocked :: "int list"
  ignored :: "int list"

definition child_signals :: "spawn_attr \<Rightarrow> process_signals \<Rightarrow> process_signals" where
  "child_signals a p = \<lparr>
     blocked = (if POSIX_SPAWN_SETSIGMASK \<in> set (flags a) then sigmask a else blocked p),
     ignored = (if POSIX_SPAWN_SETSIGDEF \<in> set (flags a)
       then filter (\<lambda>x. x \<notin> set (sigdefault a)) (ignored p) else ignored p)\<rparr>"

text \<open>Whatever the server blocks and ignores, and it does ignore \<open>SIGPIPE\<close>, the child blocks
  nothing and dies of a broken pipe as programs expect.\<close>

definition signals_reset :: "spawn_attr \<Rightarrow> bool" where
  "signals_reset a \<longleftrightarrow>
     (\<forall>p. blocked (child_signals a p) = [] \<and> SIGPIPE \<notin> set (ignored (child_signals a p)))"

lemma spawn_attributes_reset [simp]: "signals_reset spawn_attributes"
  by (simp add: signals_reset_def child_signals_def spawn_attributes_eq)

section \<open>The descriptors of the child\<close>

text \<open>A descriptor refers to an open file and has the close-on-exec flag or not. The file
  actions are carried out in order; the copy never has the flag. Then the new program is
  executed, and what has the flag is gone.\<close>

datatype open_file = StdinRead | StdinWrite | StdoutRead | StdoutWrite | OtherFile nat

type_synonym fd_table = "nat \<rightharpoonup> open_file \<times> bool"

fun do_file_actions :: "file_action list \<Rightarrow> fd_table \<Rightarrow> fd_table option" where
  "do_file_actions [] t = Some t"
| "do_file_actions ((fd, newfd) # fas) t =
     (case t fd of
        None \<Rightarrow> None
      | Some (f, _) \<Rightarrow> do_file_actions fas (t(newfd \<mapsto> (f, False))))"

definition after_exec :: "fd_table \<Rightarrow> nat \<rightharpoonup> open_file" where
  "after_exec t n = (case t n of Some (f, cloexec) \<Rightarrow> if cloexec then None else Some f | None \<Rightarrow> None)"

definition child_table :: "file_action list \<Rightarrow> fd_table \<Rightarrow> (nat \<rightharpoonup> open_file) option" where
  "child_table fas t = map_option after_exec (do_file_actions fas t)"

text \<open>\<open>CreatePipe()\<close> has opened the two pipes with the close-on-exec flag, above the standard
  descriptors, which the server holds open.\<close>

fun is_pipe_end :: "open_file \<Rightarrow> bool" where
  "is_pipe_end (OtherFile _) = False"
| "is_pipe_end _ = True"

definition pipes_opened :: "spawn_env \<Rightarrow> fd_table \<Rightarrow> bool" where
  "pipes_opened os t \<longleftrightarrow>
     (case (stdin_pipe os, stdout_pipe os) of
        (Some (stdin_r, stdin_w), Some (stdout_r, stdout_w)) \<Rightarrow>
          t stdin_r = Some (StdinRead, True) \<and> t stdin_w = Some (StdinWrite, True) \<and>
          t stdout_r = Some (StdoutRead, True) \<and> t stdout_w = Some (StdoutWrite, True) \<and>
          STDERR_FILENO < stdin_r \<and> STDERR_FILENO < stdin_w \<and>
          STDERR_FILENO < stdout_r \<and> STDERR_FILENO < stdout_w \<and>
          (\<forall>n f b. t n = Some (f, b) \<longrightarrow> is_pipe_end f \<longrightarrow> b)
      | _ \<Rightarrow> False)"

text \<open>The child reads the request from the one pipe and writes its response to the other; it
  holds no other end of them, so that the end of a pipe is seen when the last of its
  writers closes it.\<close>

definition stdio_ok :: "bool \<Rightarrow> (nat \<rightharpoonup> open_file) \<Rightarrow> bool" where
  "stdio_ok with_stderr ct \<longleftrightarrow>
     (\<forall>n. ct n = Some StdinRead \<longleftrightarrow> n = STDIN_FILENO) \<and>
     (\<forall>n. ct n = Some StdoutWrite \<longleftrightarrow> n = STDOUT_FILENO \<or> with_stderr \<and> n = STDERR_FILENO) \<and>
     (\<forall>n. ct n \<noteq> Some StdinWrite \<and> ct n \<noteq> Some StdoutRead)"

lemma child_table_stdio:
  assumes "stdin_pipe os = Some (stdin_r, stdin_w)" and "stdout_pipe os = Some (stdout_r, stdout_w)"
    and "pipes_opened os t"
  shows "\<exists>ct. child_table [(stdin_r, STDIN_FILENO), (stdout_w, STDOUT_FILENO)] t = Some ct \<and>
      stdio_ok False ct"
    and "\<exists>ct. child_table [(stdin_r, STDIN_FILENO), (stdout_w, STDOUT_FILENO),
      (stdout_w, STDERR_FILENO)] t = Some ct \<and> stdio_ok True ct"
proof -
  have t: "t stdin_r = Some (StdinRead, True)" "t stdout_w = Some (StdoutWrite, True)"
    "2 < stdin_r" "2 < stdout_w" "\<And>n f b. t n = Some (f, b) \<Longrightarrow> is_pipe_end f \<Longrightarrow> b"
    using assms by (auto simp: pipes_opened_def)
  have closed: "after_exec t n \<noteq> Some f" if "is_pipe_end f" for n f
    using t(5) [of n f] that by (auto simp: after_exec_def split: option.splits)
  have upd: "after_exec (u(n \<mapsto> (f, False))) = (after_exec u)(n \<mapsto> f)" for u n f
    by (rule ext) (simp add: after_exec_def)
  show "\<exists>ct. child_table [(stdin_r, STDIN_FILENO), (stdout_w, STDOUT_FILENO)] t = Some ct \<and>
      stdio_ok False ct"
    using t(1-4) by (simp add: child_table_def upd stdio_ok_def closed)
  show "\<exists>ct. child_table [(stdin_r, STDIN_FILENO), (stdout_w, STDOUT_FILENO),
      (stdout_w, STDERR_FILENO)] t = Some ct \<and> stdio_ok True ct"
    using t(1-4) by (simp add: child_table_def upd stdio_ok_def closed)
qed

text \<open>What a relay has asked for, and the descriptors it has kept to write to and to read from,
  given the descriptors of the server.\<close>

definition started_for ::
  "Action \<Rightarrow> bool \<Rightarrow> fd_table \<Rightarrow> spawn_request option \<Rightarrow> (nat \<times> nat) option \<Rightarrow> bool" where
  "started_for a with_stderr t request fds \<longleftrightarrow>
     (\<exists>q ct w r. request = Some q \<and> spawn_path q = c_str (hd (exec a)) \<and> spawn_argv q = map c_str (exec a) \<and>
        spawn_envp q = map c_str (env a) \<and> signals_reset (spawn_attrs q) \<and>
        fds = Some (w, r) \<and> t w = Some (StdinWrite, True) \<and> t r = Some (StdoutRead, True) \<and>
        child_table (file_actions q) t = Some ct \<and> stdio_ok with_stderr ct)"

lemma started_for_pipes:
  assumes "stdin_pipe os = Some (stdin_r, stdin_w)" and "stdout_pipe os = Some (stdout_r, stdout_w)"
    and "pipes_opened os t"
  shows "started_for a False t (Some (spawn_request_of a
      [(stdin_r, STDIN_FILENO), (stdout_w, STDOUT_FILENO)])) (Some (stdin_w, stdout_r))"
    and "started_for a True t (Some (spawn_request_of a [(stdin_r, STDIN_FILENO),
      (stdout_w, STDOUT_FILENO), (stdout_w, STDERR_FILENO)])) (Some (stdin_w, stdout_r))"
proof -
  have "t stdin_w = Some (StdinWrite, True)" "t stdout_r = Some (StdoutRead, True)"
    using assms by (simp_all add: pipes_opened_def)
  with child_table_stdio [OF assms]
  show "started_for a False t (Some (spawn_request_of a
      [(stdin_r, STDIN_FILENO), (stdout_w, STDOUT_FILENO)])) (Some (stdin_w, stdout_r))"
    and "started_for a True t (Some (spawn_request_of a [(stdin_r, STDIN_FILENO),
      (stdout_w, STDOUT_FILENO), (stdout_w, STDERR_FILENO)])) (Some (stdin_w, stdout_r))"
    by (simp_all add: started_for_def spawn_request_of_def)
qed

text \<open>An environment in which everything succeeds.\<close>

abbreviation sample_spawn_env :: spawn_env where
  "sample_spawn_env \<equiv> \<lparr>stdin_pipe = Some (10, 11), stdout_pipe = Some (12, 13), spawn_error = 0\<rparr>"

abbreviation sample_spawn :: "file_action list \<Rightarrow> spawn_request" where
  "sample_spawn fas \<equiv> \<lparr>spawn_path = ''/bin/x'', file_actions = fas, spawn_attrs = spawn_attributes,
     spawn_argv = [''/bin/x''], spawn_envp = []\<rparr>"

definition sample_fds :: fd_table where
  "sample_fds = [10 \<mapsto> (StdinRead, True), 11 \<mapsto> (StdinWrite, True), 12 \<mapsto> (StdoutRead, True),
     13 \<mapsto> (StdoutWrite, True), 2 \<mapsto> (OtherFile 0, False)]"

lemma sample_fds_opened: "pipes_opened sample_spawn_env sample_fds"
  by (simp add: pipes_opened_def sample_fds_def)

end
