(* ===== verification/ExecRelay.thy ===== *)
theory ExecRelay
  imports QmqpRelays Spawn
begin

text \<open>
  \<open>src/ExecRelay.cxx\<close>: a child process that talks QMQP on its standard input and output. The
  response of the child and its exit status arrive in either order; the response is
  withheld until the status is known. The operating system's answers (the descriptors of the
  pipes, can the program be spawned) are parameters of \<open>Start()\<close>.
\<close>

section \<open>The relay\<close>

text \<open>\<open>pidfd\<close> tells whether the process handle is held; \<open>spawned\<close> is what was passed to
  \<open>pidfd_spawn()\<close>, \<open>client_fds\<close> what \<open>client\<close> writes to and reads from.\<close>

record ExecRelay = BasicRelay +
  deferred_response :: "string option"
  pidfd :: bool
  spawned :: "spawn_request option"
  client_fds :: "(nat \<times> nat) option"

definition ExecRelay_new :: "libs \<Rightarrow> 'a QmqpMail_scheme \<Rightarrow> string list \<Rightarrow> ExecRelay" where
  "ExecRelay_new L mail hs =
     BasicRelay.extend (BasicRelay_new L mail hs)
       \<lparr>deferred_response = None, pidfd = False, spawned = None, client_fds = None\<rparr>"

text \<open>The destructor: it returns whether the child is sent \<open>SIGTERM\<close>.\<close>

definition ExecRelay_destroy :: "ExecRelay \<Rightarrow> bool" where
  "ExecRelay_destroy r \<longleftrightarrow> pidfd r"

text \<open>Every exception ends in the handler of the function body.\<close>

definition ExecRelay_Start ::
  "Action \<Rightarrow> spawn_env \<Rightarrow> ExecRelay \<Rightarrow> (bool, ExecRelay) outcome" where
  "ExecRelay_Start action os r =
     (if type action \<noteq> EXEC then Crashed AssertionFailed
      else if exec action = [] then Crashed AssertionFailed
      else case stdin_pipe os of
        None \<Rightarrow> Finished False r (RelayError ''Zinternal server error'')
      | Some (stdin_r, stdin_w) \<Rightarrow>
     (case stdout_pipe os of
        None \<Rightarrow> Finished False r (RelayError ''Zinternal server error'')
      | Some (stdout_r, stdout_w) \<Rightarrow>
     (case prepare_spawn action [(stdin_r, STDIN_FILENO), (stdout_w, STDOUT_FILENO)] of
        Inl x \<Rightarrow> Crashed x
      | Inr q \<Rightarrow>
          if spawn_error os \<noteq> 0
          then Finished False r (RelayError ''Zinternal server error'')
          else
            let r = r\<lparr>spawned := Some q, pidfd := True\<rparr>;
                r = r\<lparr>client_fds := Some (stdin_w, stdout_r)\<rparr>
            in Running True (client_Request r))))"

definition ExecRelay_OnNetstringResponse ::
  "string option \<Rightarrow> ExecRelay \<Rightarrow> (unit, ExecRelay) outcome" where
  "ExecRelay_OnNetstringResponse payload r =
     (if pidfd r then Running () (r\<lparr>deferred_response := payload\<rparr>)
      else BasicRelay_OnNetstringResponse payload r)"

definition ExecRelay_OnChildProcessExit ::
  "wait_status \<Rightarrow> ExecRelay \<Rightarrow> (unit, ExecRelay) outcome" where
  "ExecRelay_OnChildProcessExit status r =
     (let r = r\<lparr>pidfd := False\<rparr> in
      if sint status < 0 then Finished () r (RelayError ''Zinternal server error'')
      else if WIFSIGNALED status then Finished () r (RelayError ''Zinternal server error'')
      else if WEXITSTATUS status \<noteq> EXIT_SUCCESS
      then Finished () r (RelayError (ExitStatusToQmqpResponse (WEXITSTATUS status)))
      else if deferred_response r \<noteq> None
      then BasicRelay_OnNetstringResponse (deferred_response r) r
      else Running () r)"

datatype exec_event =
    ChildExit wait_status
  | ExecResponse "string option"
  | ExecClientError

fun exec_step :: "exec_event \<Rightarrow> ExecRelay \<Rightarrow> (unit, ExecRelay) outcome" where
  "exec_step (ChildExit status) r = ExecRelay_OnChildProcessExit status r"
| "exec_step (ExecResponse payload) r = ExecRelay_OnNetstringResponse payload r"
| "exec_step ExecClientError r = BasicRelay_OnNetstringError r"

text \<open>The exit is reported while the process handle is held; the client reports once it has
  been given the request.\<close>

fun exec_enabled :: "ExecRelay \<Rightarrow> exec_event \<Rightarrow> bool" where
  "exec_enabled r (ChildExit _) = pidfd r"
| "exec_enabled r (ExecResponse payload) =
     (client_request r \<noteq> None \<and> length (array_bytes payload) \<le> CLIENT_MAX_SIZE)"
| "exec_enabled r ExecClientError = (client_request r \<noteq> None)"

section \<open>The contract\<close>

text \<open>The relay runs only with a request handed over, and a response is withheld only as long
  as the child is running.\<close>

definition exec_inv :: "ExecRelay \<Rightarrow> bool" where
  "exec_inv r \<longleftrightarrow> client_request r \<noteq> None \<and> spawned r \<noteq> None \<and>
     (deferred_response r \<noteq> None \<longrightarrow> pidfd r) \<and>
     length (array_bytes (deferred_response r)) \<le> CLIENT_MAX_SIZE"

fun is_child_exit :: "exec_event \<Rightarrow> bool" where
  "is_child_exit (ChildExit _) = True"
| "is_child_exit _ = False"

interpretation exec: child_relay exec_step exec_enabled "\<lambda>_. False" exec_inv pidfd is_child_exit
proof
  fix r e u r' c x
  show "exec_inv r'" if "exec_inv r" "exec_enabled r e" "exec_step e r = Running u r'"
    using that by (cases e) (auto simp: exec_inv_def ExecRelay_OnChildProcessExit_def
        ExecRelay_OnNetstringResponse_def Let_def split: if_splits)
  show "call_ok c" if "exec_inv r" "exec_enabled r e" "exec_step e r = Finished u r' c"
    using that ExitStatus_response by (cases e) (auto simp: ExecRelay_OnChildProcessExit_def
        ExecRelay_OnNetstringResponse_def Let_def exec_inv_def dest: BasicRelay_call_ok split: if_splits)
  show "exec_step e r \<noteq> Crashed x"
    by (cases e) (simp_all add: ExecRelay_OnChildProcessExit_def ExecRelay_OnNetstringResponse_def
        Let_def)
  show "pidfd r'" if "\<not> is_child_exit e" "pidfd r" "exec_step e r = Running u r'"
    using that by (cases e) (auto simp: ExecRelay_OnNetstringResponse_def)
  show "pidfd r'" if "\<not> is_child_exit e" "pidfd r" "exec_step e r = Finished u r' c"
    using that by (cases e)
      (auto simp: ExecRelay_OnNetstringResponse_def dest: BasicRelay_call_ok)
qed

lemma exec_Start_Running:
  assumes "ExecRelay_Start a os r = Running u r'"
  obtains stdin_r stdin_w stdout_r stdout_w where "u"
    and "stdin_pipe os = Some (stdin_r, stdin_w)" and "stdout_pipe os = Some (stdout_r, stdout_w)"
    and "r' = client_Request (r\<lparr>spawned := Some (spawn_request_of a
        [(stdin_r, STDIN_FILENO), (stdout_w, STDOUT_FILENO)]), pidfd := True,
        client_fds := Some (stdin_w, stdout_r)\<rparr>)"
  using assms
  by (auto simp: ExecRelay_Start_def Let_def dest!: prepare_spawn_Inr
      split: if_splits option.splits sum.splits)

lemma exec_inv_Start:
  "ExecRelay_Start a os (ExecRelay_new L mail hs) = Running u r \<Longrightarrow>
    exec_inv r \<and> pidfd r \<and> deferred_response r = None"
  by (erule exec_Start_Running)
    (simp add: exec_inv_def client_Request_def ExecRelay_new_def BasicRelay.extend_def array_bytes_def)

lemma wire_payload_Exec:
  "ExecRelay_Start a os (ExecRelay_new L mail hs) = Running u r \<Longrightarrow>
    wire_payload r = wire_payload (BasicRelay_new L mail hs)"
  by (erule exec_Start_Running) (simp add: wire_payload_def client_Request_def ExecRelay_new_def
      BasicRelay_new_def BasicRelay.extend_def)

lemma exec_Start_spawned:
  "ExecRelay_Start a os r = Running u r' \<Longrightarrow> \<exists>fas. spawned r' = Some (spawn_request_of a fas)"
  by (erule exec_Start_Running) (auto simp: client_Request_def)

lemma exec_Start_call:
  "ExecRelay_Start a os r = Finished u r' c \<Longrightarrow> c = RelayError ''Zinternal server error'' \<and> r' = r"
  by (auto simp: ExecRelay_Start_def Let_def split: if_splits option.splits sum.splits)

lemma exec_Start_safe:
  "type a = EXEC \<Longrightarrow> exec_ok a \<Longrightarrow> ExecRelay_Start a os r \<noteq> Crashed x"
  using exec_ok_def by (auto simp: ExecRelay_Start_def Let_def split: option.splits)

text \<open>An acceptance has two causes, in either order: the exit and the response of the child.\<close>

lemma exec_accept:
  assumes "pidfd r" and "deferred_response r = None"
    and "run_relay exec_step es r = Finished u r' (RelayResponse s)"
  shows "(\<exists>st. ChildExit st \<in> set es \<and> child_succeeded st) \<and> ExecResponse (Some s) \<in> set es"
proof -
  have gen: "run_relay exec_step es r = Finished u r' (RelayResponse s) \<Longrightarrow>
      (pidfd r \<longrightarrow> (\<exists>st. ChildExit st \<in> set es \<and> child_succeeded st)) \<and>
      (deferred_response r = Some s \<or> ExecResponse (Some s) \<in> set es)" for es r
  proof (induction es arbitrary: r)
    case Nil
    then show ?case by simp
  next
    case (Cons e es)
    show ?case
    proof (cases e)
      case (ChildExit st)
      with Cons show ?thesis
        by (cases "deferred_response r")
          (fastforce simp: ExecRelay_OnChildProcessExit_def Let_def child_succeeded_def not_less
            BasicRelay_OnNetstringResponse_def array_bytes_def IsValidQmqpResponse_def
            split: if_splits)+
    next
      case (ExecResponse p)
      show ?thesis
      proof (cases "pidfd r")
        case True
        with Cons.prems ExecResponse Cons.IH [of "r\<lparr>deferred_response := p\<rparr>"] show ?thesis
          by (auto simp: ExecRelay_OnNetstringResponse_def)
      next
        case False
        with Cons.prems ExecResponse show ?thesis
          by (cases p) (auto simp: ExecRelay_OnNetstringResponse_def
              BasicRelay_OnNetstringResponse_def array_bytes_def IsValidQmqpResponse_def
              split: if_splits)
      qed
    next
      case ExecClientError
      with Cons.prems show ?thesis
        by (simp add: BasicRelay_OnNetstringError_def)
    qed
  qed
  from gen [OF assms(3)] assms(1,2) show ?thesis
    by simp
qed

section \<open>Properties\<close>

text \<open>C27: The verdict of a running child does not depend on whether its response or its exit
  is noticed first; it is the response if the child succeeded and an error according to its
  exit status otherwise.\<close>

theorem exec_order_independent:
  assumes "pidfd r" and "client_request r \<noteq> None" and "deferred_response r = None"
  shows "the_call (run_relay exec_step [ExecResponse (Some p), ChildExit s] r) =
      the_call (run_relay exec_step [ChildExit s, ExecResponse (Some p)] r) \<and>
    the_call (run_relay exec_step [ExecResponse (Some p), ChildExit s] r) =
      Some (if child_succeeded s
        then (if valid_response p then RelayResponse p else RelayError ''Zmalformed relay response'')
        else RelayError (if 0 \<le> sint s \<and> \<not> WIFSIGNALED s
          then ExitStatusToQmqpResponse (WEXITSTATUS s) else ''Zinternal server error''))"
  using assms
  by (auto simp: ExecRelay_OnNetstringResponse_def ExecRelay_OnChildProcessExit_def Let_def
      child_succeeded_def BasicRelay_OnNetstringResponse_def array_bytes_def
      IsValidQmqpResponse_valid split: outcome.splits)

definition sample_exec :: ExecRelay where
  "sample_exec = \<lparr>request = [], client_request = Some [''x''], deferred_response = None,
     pidfd = True, spawned = Some (sample_spawn [(10, 0), (13, 1)]), client_fds = Some (11, 12)\<rparr>"

theorem exec_order_independent_witness:
  "the_call (run_relay exec_step [ChildExit (exited 0), ExecResponse (Some ''Kok'')] sample_exec) =
     Some (RelayResponse ''Kok'') \<and>
   the_call (run_relay exec_step [ExecResponse (Some ''Kok''), ChildExit (exited 77)] sample_exec) =
     Some (RelayError ''Dinternal server error'')"
proof -
  have s: "pidfd sample_exec" "client_request sample_exec \<noteq> None" "deferred_response sample_exec = None"
    by (simp_all add: sample_exec_def)
  show ?thesis
    using exec_order_independent [OF s, of "''Kok''" "exited 0"]
      exec_order_independent [OF s, of "''Kok''" "exited 77"]
    by (auto simp: valid_response_def ExitStatusToQmqpResponse_def EX_NOPERM_def
        simp del: run_relay.simps)
qed

end
