(* ===== verification/RawExecRelay.thy ===== *)
theory RawExecRelay
  imports ExecRelay "HOL-Library.Sublist"
begin

text \<open>
  \<open>src/RawExecRelay.cxx\<close>: a child process that reads the bare message and writes free text.
  The text goes to a buffer of 256 bytes whose first byte is kept for the QMQP code; the
  code is derived from the exit status. The relay finishes when both the end of the output
  pipe and the exit of the child have been seen.
\<close>

section \<open>The relay\<close>

text \<open>\<open>input_written\<close> is no member of the class: it records the effect of the writes, the bytes that
  have gone into the pipe to the child. \<open>status\<close> has no initialiser in the class: \<open>None\<close> is the uninitialised state. A pipe
  member tells whether the event object has a file descriptor; \<open>pipe_fds\<close> are the descriptors
  they were opened with, of \<open>request_pipe\<close> and \<open>response_pipe\<close>. The bytes of
  \<open>response_buffer\<close> beyond \<open>response_fill\<close> are never read; they start as null bytes here.\<close>

record RawExecRelay =
  raw_pidfd :: bool
  request_buffer :: "string list"
  input_written :: string
  request_pipe :: bool
  request_write :: bool
  response_pipe :: bool
  response_buffer :: string
  response_fill :: nat
  status :: "wait_status option"
  raw_spawned :: "spawn_request option"
  pipe_fds :: "(nat \<times> nat) option"

definition RESPONSE_BUFFER_SIZE :: nat where
  "RESPONSE_BUFFER_SIZE = 256"

definition RawExecRelay_new :: "'a QmqpMail_scheme \<Rightarrow> string list \<Rightarrow> RawExecRelay" where
  "RawExecRelay_new mail additional_headers = \<lparr>raw_pidfd = False,
     request_buffer = additional_headers @ [message mail], input_written = [],
     request_pipe = False, request_write = False, response_pipe = False,
     response_buffer = replicate RESPONSE_BUFFER_SIZE (CHR 0x00), response_fill = 1,
     status = None, raw_spawned = None, pipe_fds = None\<rparr>"

definition RawExecRelay_destroy :: "RawExecRelay \<Rightarrow> bool" where
  "RawExecRelay_destroy r \<longleftrightarrow> raw_pidfd r"

text \<open>The answer of \<open>MultiWriteBuffer::Write()\<close>, with the buffers it leaves behind.\<close>

datatype write_result = WriteMore "string list" | WriteFinished | WriteError

text \<open>The bytes it has written, if it does what it is for (\<open>write_law\<close>): either all buffers are
  written, or some bytes of them are left, which are the last ones.\<close>

fun written :: "write_result \<Rightarrow> string list \<Rightarrow> string" where
  "written (WriteMore rest) bufs = take (length (concat bufs) - length (concat rest)) (concat bufs)"
| "written WriteFinished bufs = concat bufs"
| "written WriteError bufs = []"

fun write_law :: "string list \<Rightarrow> write_result \<Rightarrow> bool" where
  "write_law bufs (WriteMore rest) \<longleftrightarrow> concat rest \<noteq> [] \<and> suffix (concat rest) (concat bufs)"
| "write_law bufs _ \<longleftrightarrow> True"

lemma written_more: "write_law bufs (WriteMore rest) \<Longrightarrow> written (WriteMore rest) bufs @ concat rest = concat bufs"
  by (auto simp: suffix_def)

lemma written_prefix: "write_law bufs w \<Longrightarrow> prefix (written w bufs) (concat bufs)"
  by (cases w) (simp_all add: take_is_prefix)

definition TryWrite :: "write_result \<Rightarrow> RawExecRelay \<Rightarrow> (bool, RawExecRelay) outcome" where
  "TryWrite w r =
     (let r = r\<lparr>input_written := input_written r @ written w (request_buffer r)\<rparr> in
      case w of
        WriteMore rest \<Rightarrow> Running True (r\<lparr>request_buffer := rest, request_write := True\<rparr>)
      | WriteFinished \<Rightarrow>
          Running True (r\<lparr>request_buffer := [], request_pipe := False, request_write := False\<rparr>)
      | WriteError \<Rightarrow> Finished True r (RelayError ''Zwrite error''))"

definition RawExecRelay_Start ::
  "Action \<Rightarrow> spawn_env \<Rightarrow> write_result \<Rightarrow> RawExecRelay \<Rightarrow> (bool, RawExecRelay) outcome" where
  "RawExecRelay_Start action os w r =
     (if type action \<noteq> EXEC_RAW then Crashed AssertionFailed
      else if exec action = [] then Crashed AssertionFailed
      else case stdin_pipe os of
        None \<Rightarrow> Finished False r (RelayError ''Zinternal server error'')
      | Some (stdin_r, stdin_w) \<Rightarrow>
     (case stdout_pipe os of
        None \<Rightarrow> Finished False r (RelayError ''Zinternal server error'')
      | Some (stdout_r, stdout_w) \<Rightarrow>
     (case prepare_spawn action [(stdin_r, STDIN_FILENO), (stdout_w, STDOUT_FILENO),
          (stdout_w, STDERR_FILENO)] of
        Inl x \<Rightarrow> Crashed x
      | Inr q \<Rightarrow>
          if spawn_error os \<noteq> 0
          then Finished False r (RelayError ''Zinternal server error'')
          else
            let r = r\<lparr>raw_spawned := Some q, raw_pidfd := True\<rparr>;
                r = r\<lparr>response_pipe := True\<rparr>;
                r = r\<lparr>request_pipe := True, pipe_fds := Some (stdin_w, stdout_r)\<rparr>
            in TryWrite w r)))"

definition OnRequestPipeReady :: "write_result \<Rightarrow> RawExecRelay \<Rightarrow> (unit, RawExecRelay) outcome" where
  "OnRequestPipeReady w r = void (TryWrite w r)"

text \<open>The answer of \<open>read()\<close>: an error, or bytes, of which no more than asked for are
  delivered.\<close>

datatype read_result = ReadError | ReadBytes string

definition ReadPipeOrThrow :: "read_result \<Rightarrow> nat \<Rightarrow> string option" where
  "ReadPipeOrThrow rd n = (case rd of ReadError \<Rightarrow> None | ReadBytes s \<Rightarrow> Some (take n s))"

definition TryRead :: "read_result \<Rightarrow> RawExecRelay \<Rightarrow> (bool, RawExecRelay) outcome" where
  "TryRead rd r =
     (let dest = length (response_buffer r) - response_fill r in
      if dest = 0 then
        (case ReadPipeOrThrow rd 1024 of
           None \<Rightarrow> Finished True r (RelayError ''Zread error'')
         | Some s \<Rightarrow> Running (0 < length s) r)
      else
        (case ReadPipeOrThrow rd dest of
           None \<Rightarrow> Finished True r (RelayError ''Zread error'')
         | Some s \<Rightarrow> Running (0 < length s) (r\<lparr>
             response_buffer := take (response_fill r) (response_buffer r) @ s @
               drop (response_fill r + length s) (response_buffer r),
             response_fill := response_fill r + length s\<rparr>)))"

text \<open>The signal-number branch and the exit-status branch of \<open>Finish()\<close>. The response is written
  to the buffer only if the child has written something.\<close>

definition RawExecRelay_Finish :: "RawExecRelay \<Rightarrow> (unit, RawExecRelay) outcome" where
  "RawExecRelay_Finish r =
     (if response_pipe r then Crashed AssertionFailed
      else if raw_pidfd r then Crashed AssertionFailed
      else case status r of
        None \<Rightarrow> Crashed UninitializedRead
      | Some st \<Rightarrow>
          let response =
                (if sint st < 0 \<or> WIFSIGNALED st then ''Zinternal server error''
                 else if WEXITSTATUS st \<noteq> EXIT_SUCCESS
                 then ExitStatusToQmqpResponse (WEXITSTATUS st)
                 else ''K'');
              buf = (if 1 < response_fill r
                 then (response_buffer r)[0 := hd response] else response_buffer r);
              response = (if 1 < response_fill r then take (response_fill r) buf else response);
              r = r\<lparr>response_buffer := buf\<rparr>
          in if sint st < 0 then Finished () r (RelayError response)
             else if WIFSIGNALED st then Finished () r (RelayError response)
             else if WEXITSTATUS st \<noteq> EXIT_SUCCESS then Finished () r (RelayError response)
             else Finished () r (RelayResponse response))"

text \<open>The event mask: whether it has the hang-up bit and whether it has any other bit.\<close>

record pipe_events =
  hangup :: bool
  others :: bool

text \<open>\<open>OnResponsePipeReady()\<close>: the condition is evaluated from left to right. After
  \<open>TryRead()\<close> has returned, the result and the hang-up bit decide whether the pipe is closed,
  which accesses members of the object.\<close>

definition close_response_pipe :: "RawExecRelay \<Rightarrow> (unit, RawExecRelay) outcome" where
  "close_response_pipe r =
     (let r = r\<lparr>response_pipe := False\<rparr> in
      if \<not> raw_pidfd r then RawExecRelay_Finish r else Running () r)"

definition OnResponsePipeReady ::
  "pipe_events \<Rightarrow> read_result \<Rightarrow> RawExecRelay \<Rightarrow> (unit, RawExecRelay) outcome" where
  "OnResponsePipeReady events rd r =
     (if hangup events \<and> \<not> others events then close_response_pipe r
      else
        let out = TryRead rd r
        in if returned out = Some False \<or> hangup events
           then access_members out close_response_pipe
           else void out)"

definition RawExecRelay_OnChildProcessExit ::
  "wait_status \<Rightarrow> RawExecRelay \<Rightarrow> (unit, RawExecRelay) outcome" where
  "RawExecRelay_OnChildProcessExit st r =
     (let r = r\<lparr>raw_pidfd := False, status := Some st\<rparr> in
      if \<not> response_pipe r then RawExecRelay_Finish r else Running () r)"

datatype raw_event =
    RequestReady write_result
  | ResponseReady pipe_events read_result
  | RawChildExit wait_status

fun raw_step :: "raw_event \<Rightarrow> RawExecRelay \<Rightarrow> (unit, RawExecRelay) outcome" where
  "raw_step (RequestReady w) r = OnRequestPipeReady w r"
| "raw_step (ResponseReady events rd) r = OnResponsePipeReady events rd r"
| "raw_step (RawChildExit st) r = RawExecRelay_OnChildProcessExit st r"

text \<open>Pipe events come from open pipes, the exit while the process handle is held.\<close>

fun raw_enabled :: "RawExecRelay \<Rightarrow> raw_event \<Rightarrow> bool" where
  "raw_enabled r (RequestReady _) = request_pipe r"
| "raw_enabled r (ResponseReady _ _) = response_pipe r"
| "raw_enabled r (RawChildExit _) = raw_pidfd r"

text \<open>The hazard: reading fails while the event mask has the hang-up bit and another one.\<close>

fun raw_hazard :: "raw_event \<Rightarrow> bool" where
  "raw_hazard (ResponseReady events ReadError) = (hangup events \<and> others events)"
| "raw_hazard _ = False"

fun is_raw_exit :: "raw_event \<Rightarrow> bool" where
  "is_raw_exit (RawChildExit _) = True"
| "is_raw_exit _ = False"

section \<open>The contract\<close>

text \<open>The relay runs as long as the pipe is open or the child is alive; once the child is gone
  its status is known; the fill mark stays within the buffer and above the code byte.\<close>

definition raw_inv :: "RawExecRelay \<Rightarrow> bool" where
  "raw_inv r \<longleftrightarrow> length (response_buffer r) = RESPONSE_BUFFER_SIZE \<and>
     1 \<le> response_fill r \<and> response_fill r \<le> RESPONSE_BUFFER_SIZE \<and>
     (raw_pidfd r \<or> status r \<noteq> None) \<and> (raw_pidfd r \<or> response_pipe r)"

text \<open>The state when \<open>Finish()\<close> is called, and what it calls the handler with.\<close>

definition raw_code :: "wait_status \<Rightarrow> string" where
  "raw_code st = (if child_succeeded st then ''K''
     else if 0 \<le> sint st \<and> \<not> WIFSIGNALED st then ExitStatusToQmqpResponse (WEXITSTATUS st)
     else ''Zinternal server error'')"

definition raw_verdict :: "wait_status \<Rightarrow> string \<Rightarrow> handler_call" where
  "raw_verdict st out =
     (let s = (if out = [] then raw_code st else hd (raw_code st) # out)
      in if child_succeeded st then RelayResponse s else RelayError s)"

definition raw_output :: "RawExecRelay \<Rightarrow> string" where
  "raw_output r = take (response_fill r - 1) (tl (response_buffer r))"

lemma Finish_verdict:
  assumes "\<not> response_pipe r" and "\<not> raw_pidfd r" and "status r = Some st"
    and "length (response_buffer r) = RESPONSE_BUFFER_SIZE"
    and "1 \<le> response_fill r" and "response_fill r \<le> RESPONSE_BUFFER_SIZE"
  shows "\<exists>r'. RawExecRelay_Finish r = Finished () r' (raw_verdict st (raw_output r)) \<and>
    raw_pidfd r' = raw_pidfd r"
proof -
  obtain c t where buf: "response_buffer r = c # t"
    using assms(4) by (cases "response_buffer r") (auto simp: RESPONSE_BUFFER_SIZE_def)
  obtain n where n: "response_fill r = Suc n"
    using assms(5) by (cases "response_fill r") auto
  have out: "raw_output r = take n t"
    by (simp add: raw_output_def buf n)
  have "take n t = [] \<longleftrightarrow> n = 0"
    using assms(4,6) buf n by (auto simp: RESPONSE_BUFFER_SIZE_def)
  then show ?thesis
    using assms(1-3) out
    by (auto simp: RawExecRelay_Finish_def Let_def raw_verdict_def raw_code_def
        child_succeeded_def buf n not_less)
qed

lemma raw_verdict_ok: "length out \<le> 255 \<Longrightarrow> call_ok (raw_verdict st out)"
  using ExitStatus_response [of "WEXITSTATUS st"]
  by (auto simp: raw_verdict_def raw_code_def Let_def good_response_def valid_response_def)

text \<open>A read appends to the output, of which the buffer keeps the first 255 bytes.\<close>

lemma TryRead_error: "TryRead ReadError r = Finished True r (RelayError ''Zread error'')"
  by (simp add: TryRead_def ReadPipeOrThrow_def)

lemma TryRead_bytes:
  assumes "raw_inv r"
  shows "\<exists>r'. TryRead (ReadBytes s) r = Running (s \<noteq> []) r' \<and> raw_inv r' \<and>
    raw_pidfd r' = raw_pidfd r \<and> status r' = status r \<and> response_pipe r' = response_pipe r \<and>
    raw_output r' = take (RESPONSE_BUFFER_SIZE - 1) (raw_output r @ s)"
proof -
  obtain c t where buf: "response_buffer r = c # t" and len: "length t = 255"
    using assms by (cases "response_buffer r") (auto simp: raw_inv_def RESPONSE_BUFFER_SIZE_def)
  obtain n where n: "response_fill r = Suc n" "n \<le> 255"
    using assms by (cases "response_fill r") (auto simp: raw_inv_def RESPONSE_BUFFER_SIZE_def)
  have out: "raw_output r = take n t"
    by (simp add: raw_output_def buf n)
  show ?thesis
  proof (cases "n = 255")
    case True
    with assms out len n show ?thesis
      by (auto simp: TryRead_def ReadPipeOrThrow_def buf RESPONSE_BUFFER_SIZE_def)
  next
    case False
    let ?s = "take (255 - n) s"
    let ?r' = "r\<lparr>response_buffer := take (Suc n) (c # t) @ ?s @ drop (Suc n + length ?s) (c # t),
      response_fill := Suc n + length ?s\<rparr>"
    from False n len have step: "TryRead (ReadBytes s) r = Running (s \<noteq> []) ?r'"
      by (auto simp: TryRead_def ReadPipeOrThrow_def buf Let_def)
    have "take (min (length s) (255 - n)) s = take (255 - n) s"
      by (simp add: min_def)
    then have "raw_output ?r' = take n t @ ?s"
      using n len by (simp add: raw_output_def)
    moreover have "raw_inv ?r'"
      using assms n len False by (auto simp: raw_inv_def RESPONSE_BUFFER_SIZE_def)
    ultimately show ?thesis
      using step out n len by (intro exI [of _ ?r']) (simp add: RESPONSE_BUFFER_SIZE_def)
  qed
qed

text \<open>The outcomes of an event on the response pipe, by what the read has returned.\<close>

lemma OnResponsePipeReady_eq:
  "OnResponsePipeReady events rd r =
    (if hangup events \<and> \<not> others events then close_response_pipe r
     else case TryRead rd r of
       Crashed x \<Rightarrow> Crashed x
     | Finished got r' c \<Rightarrow> if \<not> got \<or> hangup events then Crashed UseAfterFree else Finished () r' c
     | Running got r' \<Rightarrow> if \<not> got \<or> hangup events then close_response_pipe r' else Running () r')"
  by (cases "TryRead rd r") (simp_all add: OnResponsePipeReady_def Let_def)

lemma raw_output_bound:
  "raw_inv r \<Longrightarrow> take (RESPONSE_BUFFER_SIZE - 1) (raw_output r) = raw_output r"
  by (intro take_all) (auto simp: raw_output_def raw_inv_def)

lemma raw_output_length: "raw_inv r \<Longrightarrow> length (raw_output r) \<le> 255"
  by (simp add: raw_output_def raw_inv_def RESPONSE_BUFFER_SIZE_def)

text \<open>Closing the pipe: the verdict if the child is gone already, else the relay goes on.\<close>

lemma close_response_pipe_cases:
  assumes "raw_inv r"
  obtains "raw_pidfd r" "close_response_pipe r = Running () (r\<lparr>response_pipe := False\<rparr>)"
    "raw_inv (r\<lparr>response_pipe := False\<rparr>)"
  | st r' where "\<not> raw_pidfd r" "status r = Some st" "\<not> raw_pidfd r'"
    "close_response_pipe r = Finished () r' (raw_verdict st (raw_output r))"
proof (cases "raw_pidfd r")
  case True
  with assms that(1) show thesis
    by (simp add: close_response_pipe_def raw_inv_def)
next
  case False
  with assms obtain st where "status r = Some st"
    by (auto simp: raw_inv_def)
  with False assms Finish_verdict [of "r\<lparr>response_pipe := False\<rparr>" st] that(2) show thesis
    by (auto simp: close_response_pipe_def raw_inv_def raw_output_def)
qed

lemma OnChildProcessExit_cases:
  assumes "raw_inv r"
  obtains "response_pipe r"
    "RawExecRelay_OnChildProcessExit st r = Running () (r\<lparr>raw_pidfd := False, status := Some st\<rparr>)"
    "raw_inv (r\<lparr>raw_pidfd := False, status := Some st\<rparr>)"
  | r' where "\<not> response_pipe r" "\<not> raw_pidfd r'"
    "RawExecRelay_OnChildProcessExit st r = Finished () r' (raw_verdict st (raw_output r))"
proof (cases "response_pipe r")
  case True
  with assms that(1) show thesis
    by (simp add: RawExecRelay_OnChildProcessExit_def raw_inv_def)
next
  case False
  with assms Finish_verdict [of "r\<lparr>raw_pidfd := False, status := Some st\<rparr>" st] that(2) show thesis
    by (auto simp: RawExecRelay_OnChildProcessExit_def raw_inv_def raw_output_def)
qed

text \<open>All outcomes of an event on the response pipe.\<close>

lemma OnResponsePipeReady_cases [case_names error crash more pending verdict]:
  assumes "raw_inv r"
  obtains "rd = ReadError" "\<not> (hangup ev \<and> \<not> others ev)" "\<not> hangup ev"
    "OnResponsePipeReady ev rd r = Finished () r (RelayError ''Zread error'')"
  | "rd = ReadError" "hangup ev" "others ev" "OnResponsePipeReady ev rd r = Crashed UseAfterFree"
  | r' where "OnResponsePipeReady ev rd r = Running () r'" "raw_inv r'"
    "raw_pidfd r' = raw_pidfd r" "response_pipe r' = response_pipe r" "status r' = status r"
  | r' where "OnResponsePipeReady ev rd r = Running () r'" "raw_inv r'" "raw_pidfd r" "raw_pidfd r'"
    "\<not> response_pipe r'"
  | st out r' where "\<not> raw_pidfd r" "\<not> raw_pidfd r'" "status r = Some st" "length out \<le> 255"
    "OnResponsePipeReady ev rd r = Finished () r' (raw_verdict st out)"
proof (cases "hangup ev \<and> \<not> others ev")
  case True
  then have "OnResponsePipeReady ev rd r = close_response_pipe r"
    by (simp add: OnResponsePipeReady_eq)
  with that(4,5) raw_output_length [OF assms] show thesis
    by (cases rule: close_response_pipe_cases [OF assms]) simp_all
next
  case False
  show thesis
  proof (cases rd)
    case ReadError
    with False that(1,2) show thesis
      by (cases "hangup ev") (auto simp: OnResponsePipeReady_eq TryRead_error)
  next
    case (ReadBytes s)
    obtain r1 where r1: "TryRead (ReadBytes s) r = Running (s \<noteq> []) r1" "raw_inv r1"
        "raw_pidfd r1 = raw_pidfd r" "status r1 = status r" "response_pipe r1 = response_pipe r"
      using TryRead_bytes [OF assms] by blast
    show thesis
    proof (cases "s = [] \<or> hangup ev")
      case True
      with False r1 ReadBytes have "OnResponsePipeReady ev rd r = close_response_pipe r1"
        by (auto simp: OnResponsePipeReady_eq)
      with r1(3,4) that(4,5) raw_output_length [OF r1(2)] show thesis
        by (cases rule: close_response_pipe_cases [OF r1(2)]) (simp, metis)
    next
      case no: False
      with False r1 ReadBytes that(3) show thesis
        by (auto simp: OnResponsePipeReady_eq)
    qed
  qed
qed

interpretation raw: child_relay raw_step raw_enabled raw_hazard raw_inv raw_pidfd is_raw_exit
proof
  fix r e u r' c x
  assume inv: "raw_inv r"
  show "raw_inv r'" if "raw_enabled r e" "raw_step e r = Running u r'"
  proof (cases e)
    case (RequestReady w)
    with that inv show ?thesis
      by (auto simp: OnRequestPipeReady_def TryWrite_def Let_def raw_inv_def split: write_result.splits)
  next
    case (ResponseReady ev rd)
    with inv that(2) show ?thesis
      by (cases rule: OnResponsePipeReady_cases [of r rd ev]) auto
  next
    case (RawChildExit st)
    with inv that(2) show ?thesis
      by (cases rule: OnChildProcessExit_cases [of r st]) auto
  qed
  show "call_ok c" if "raw_step e r = Finished u r' c"
  proof (cases e)
    case (RequestReady w)
    with that show ?thesis
      by (auto simp: OnRequestPipeReady_def TryWrite_def Let_def split: write_result.splits)
  next
    case (ResponseReady ev rd)
    with inv that show ?thesis
      by (cases rule: OnResponsePipeReady_cases [of r rd ev]) (auto simp: raw_verdict_ok)
  next
    case (RawChildExit st)
    with inv that show ?thesis
      by (cases rule: OnChildProcessExit_cases [of r st]) (auto simp: raw_verdict_ok raw_output_length [OF inv])
  qed
  show "raw_step e r \<noteq> Crashed x" if "\<not> raw_hazard e"
  proof (cases e)
    case (RequestReady w)
    then show ?thesis
      by (auto simp: OnRequestPipeReady_def TryWrite_def Let_def split: write_result.splits)
  next
    case (ResponseReady ev rd)
    with inv that show ?thesis
      by (cases rule: OnResponsePipeReady_cases [of r rd ev]) auto
  next
    case (RawChildExit st)
    with inv show ?thesis
      by (cases rule: OnChildProcessExit_cases [of r st]) auto
  qed
  have keep: "raw_pidfd r'" if "\<not> is_raw_exit e" "raw_pidfd r"
    "raw_step e r = Running u r' \<or> raw_step e r = Finished u r' c" for u c
  proof (cases e)
    case (RequestReady w)
    with that show ?thesis
      by (auto simp: OnRequestPipeReady_def TryWrite_def Let_def split: write_result.splits)
  next
    case (ResponseReady ev rd)
    with inv that show ?thesis
      by (cases rule: OnResponsePipeReady_cases [of r rd ev]) auto
  next
    case (RawChildExit st)
    with that show ?thesis by simp
  qed
  show "raw_pidfd r'" if "\<not> is_raw_exit e" "raw_pidfd r" "raw_step e r = Running u r'"
    using that keep by blast
  show "raw_pidfd r'" if "\<not> is_raw_exit e" "raw_pidfd r" "raw_step e r = Finished u r' c"
    using that keep by blast
qed

lemma TryWrite_Running:
  "TryWrite w r = Running u r' \<Longrightarrow> u \<and> raw_pidfd r' = raw_pidfd r \<and> raw_spawned r' = raw_spawned r \<and>
    pipe_fds r' = pipe_fds r \<and> response_pipe r' = response_pipe r \<and>
    response_buffer r' = response_buffer r \<and> response_fill r' = response_fill r \<and> status r' = status r"
  by (auto simp: TryWrite_def Let_def split: write_result.splits)

lemma raw_Start_Running:
  assumes "RawExecRelay_Start a os w r = Running u r'"
  obtains stdin_r stdin_w stdout_r stdout_w where "u"
    and "stdin_pipe os = Some (stdin_r, stdin_w)" and "stdout_pipe os = Some (stdout_r, stdout_w)"
    and "raw_spawned r' = Some (spawn_request_of a [(stdin_r, STDIN_FILENO),
      (stdout_w, STDOUT_FILENO), (stdout_w, STDERR_FILENO)])"
    and "pipe_fds r' = Some (stdin_w, stdout_r)" and "raw_pidfd r'" and "response_pipe r'"
    and "response_buffer r' = response_buffer r" and "response_fill r' = response_fill r"
    and "status r' = status r"
  using assms
  by (auto simp: RawExecRelay_Start_def Let_def dest!: prepare_spawn_Inr TryWrite_Running
      split: if_splits option.splits sum.splits)

lemma raw_inv_Start:
  "RawExecRelay_Start a os w (RawExecRelay_new mail hs) = Running u r \<Longrightarrow> raw_inv r \<and> raw_pidfd r"
  by (erule raw_Start_Running) (simp add: raw_inv_def RawExecRelay_new_def RESPONSE_BUFFER_SIZE_def)

lemma raw_Start_spawned:
  "RawExecRelay_Start a os w r = Running u r' \<Longrightarrow> \<exists>fas. raw_spawned r' = Some (spawn_request_of a fas)"
  by (erule raw_Start_Running) blast

lemma raw_Start_call:
  "RawExecRelay_Start a os w r = Finished u r' c \<Longrightarrow>
    c \<in> {RelayError ''Zinternal server error'', RelayError ''Zwrite error''}"
  by (auto simp: RawExecRelay_Start_def TryWrite_def Let_def
      split: if_splits option.splits sum.splits write_result.splits)

lemma raw_Start_safe:
  "type a = EXEC_RAW \<Longrightarrow> exec_ok a \<Longrightarrow> RawExecRelay_Start a os w r \<noteq> Crashed x"
  using exec_ok_def
  by (auto simp: RawExecRelay_Start_def TryWrite_def Let_def split: option.splits write_result.splits)

text \<open>An acceptance implies that the child has exited with success, before or now.\<close>

lemma raw_verdict_K:
  "raw_verdict st out = RelayResponse s \<Longrightarrow> hd s = CHR ''K'' \<and> child_succeeded st"
  by (auto simp: raw_verdict_def raw_code_def Let_def split: if_splits)

definition exit_seen :: "RawExecRelay \<Rightarrow> raw_event list \<Rightarrow> wait_status \<Rightarrow> bool" where
  "exit_seen r es st \<longleftrightarrow> status r = Some st \<and> \<not> raw_pidfd r \<or> RawChildExit st \<in> set es"

lemma raw_step_running:
  assumes "raw_inv r" and "raw_step e r = Running u r'"
  shows "raw_inv r' \<and> (\<forall>st. exit_seen r' es st \<longrightarrow> exit_seen r (e # es) st)"
proof (cases e)
  case (RequestReady w)
  with assms show ?thesis
    by (auto simp: OnRequestPipeReady_def TryWrite_def Let_def raw_inv_def exit_seen_def split: write_result.splits)
next
  case (ResponseReady ev rd)
  with assms show ?thesis
    by (cases rule: OnResponsePipeReady_cases [of r rd ev]) (auto simp: exit_seen_def)
next
  case (RawChildExit st)
  with assms show ?thesis
    by (cases rule: OnChildProcessExit_cases [of r st]) (auto simp: exit_seen_def)
qed

lemma raw_step_accept:
  assumes "raw_inv r" and "raw_step e r = Finished u r' (RelayResponse s)"
  shows "hd s = CHR ''K'' \<and> (\<exists>st. exit_seen r (e # es) st \<and> child_succeeded st)"
proof (cases e)
  case (RequestReady w)
  with assms show ?thesis
    by (auto simp: OnRequestPipeReady_def TryWrite_def Let_def split: write_result.splits)
next
  case (ResponseReady ev rd)
  with assms show ?thesis
    by (cases rule: OnResponsePipeReady_cases [of r rd ev]) (auto simp: exit_seen_def dest: raw_verdict_K)
next
  case (RawChildExit st)
  with assms show ?thesis
    by (cases rule: OnChildProcessExit_cases [of r st]) (auto simp: exit_seen_def dest: raw_verdict_K)
qed

lemma raw_accept_gen:
  "raw_inv r \<Longrightarrow> run_relay raw_step es r = Finished u r' (RelayResponse s) \<Longrightarrow>
    hd s = CHR ''K'' \<and> (\<exists>st. exit_seen r es st \<and> child_succeeded st)"
proof (induction es arbitrary: r)
  case (Cons e es)
  show ?case
  proof (cases "raw_step e r")
    case (Running v r1)
    with Cons raw_step_running [OF Cons.prems(1) Running, of es] show ?thesis
      by auto
  qed (use Cons.prems raw_step_accept [OF Cons.prems(1)] in auto)
qed simp

lemma raw_accept:
  assumes "raw_inv r" and "raw_pidfd r" and "run_relay raw_step es r = Finished u r' (RelayResponse s)"
  shows "hd s = CHR ''K'' \<and> (\<exists>st. RawChildExit st \<in> set es \<and> child_succeeded st)"
  using raw_accept_gen [OF assms(1,3)] assms(2) by (auto simp: exit_seen_def)

section \<open>Properties\<close>

text \<open>The events of a child that writes the chunks \<open>ss\<close>, closes its output and exits.\<close>

abbreviation readable :: pipe_events where
  "readable \<equiv> \<lparr>hangup = False, others = True\<rparr>"

definition chunk_events :: "string list \<Rightarrow> raw_event list" where
  "chunk_events ss = map (\<lambda>s. ResponseReady readable (ReadBytes s)) ss"

lemma run_relay_append:
  "run_relay f (es @ es') r =
    (case run_relay f es r of Running u r' \<Rightarrow> run_relay f es' r' | out \<Rightarrow> out)"
  by (induction es arbitrary: r) (auto split: outcome.splits)

lemma run_chunks:
  assumes "raw_inv r" and "[] \<notin> set ss"
  shows "\<exists>r'. run_relay raw_step (chunk_events ss) r = Running () r' \<and> raw_inv r' \<and>
    raw_pidfd r' = raw_pidfd r \<and> response_pipe r' = response_pipe r \<and> status r' = status r \<and>
    raw_output r' = take (RESPONSE_BUFFER_SIZE - 1) (raw_output r @ concat ss)"
  using assms
proof (induction ss arbitrary: r)
  case Nil
  then show ?case
    using raw_output_bound by (simp add: chunk_events_def)
next
  case (Cons s ss)
  obtain r1 where r1: "TryRead (ReadBytes s) r = Running (s \<noteq> []) r1" "raw_inv r1"
      "raw_pidfd r1 = raw_pidfd r" "status r1 = status r" "response_pipe r1 = response_pipe r"
      "raw_output r1 = take (RESPONSE_BUFFER_SIZE - 1) (raw_output r @ s)"
    using TryRead_bytes [OF Cons.prems(1)] by blast
  then have "OnResponsePipeReady readable (ReadBytes s) r = Running () r1"
    using Cons.prems(2) by (auto simp: OnResponsePipeReady_eq)
  moreover have "take (RESPONSE_BUFFER_SIZE - 1) (raw_output r1 @ concat ss) =
      take (RESPONSE_BUFFER_SIZE - 1) (raw_output r @ concat (s # ss))"
    unfolding r1(6) take_append_take by simp
  ultimately show ?case
    using Cons.IH [OF r1(2)] Cons.prems(2) r1(3-5) by (simp add: chunk_events_def)
qed

text \<open>The end of the output closes the pipe, whatever has been read so far.\<close>

lemma read_eof:
  assumes "raw_inv r"
  obtains q where "OnResponsePipeReady readable (ReadBytes []) r = close_response_pipe q" "raw_inv q"
    "raw_pidfd q = raw_pidfd r" "status q = status r" "raw_output q = raw_output r"
  using TryRead_bytes [OF assms, of "[]"] raw_output_bound [OF assms]
  by (auto simp: OnResponsePipeReady_eq)

text \<open>C26: What the client is told about a raw child: the code of its exit status followed by
  the first 255 bytes it wrote, in any chunks; or, if it wrote nothing, the standard text
  for that status. The end of the output and the exit may come in either order.\<close>

theorem raw_relay_verdict:
  assumes "raw_inv r" and "raw_pidfd r" and "response_pipe r" and "response_fill r = 1"
    and "[] \<notin> set ss"
  shows "the_call (run_relay raw_step
      (chunk_events ss @ [ResponseReady readable (ReadBytes []), RawChildExit st]) r) =
      Some (raw_verdict st (take 255 (concat ss))) \<and>
    the_call (run_relay raw_step
      (chunk_events ss @ [RawChildExit st, ResponseReady readable (ReadBytes [])]) r) =
      Some (raw_verdict st (take 255 (concat ss)))"
proof -
  have "raw_output r = []"
    using assms(4) by (simp add: raw_output_def)
  then obtain r1 where r1: "run_relay raw_step (chunk_events ss) r = Running () r1" "raw_inv r1"
      "raw_pidfd r1" "response_pipe r1" "raw_output r1 = take 255 (concat ss)"
    using run_chunks [OF assms(1,5)] assms(2,3) by (auto simp: RESPONSE_BUFFER_SIZE_def)
  show ?thesis
  proof
    obtain q where q: "OnResponsePipeReady readable (ReadBytes []) r1 = close_response_pipe q"
        "raw_inv q" "raw_pidfd q" "raw_output q = take 255 (concat ss)"
      using read_eof [OF r1(2)] r1(3,5) by metis
    let ?q = "q\<lparr>response_pipe := False\<rparr>"
    have "close_response_pipe q = Running () ?q" and inv: "raw_inv ?q"
      using q(2,3) by (auto simp: close_response_pipe_def raw_inv_def)
    moreover have "raw_output ?q = take 255 (concat ss)"
      using q(4) by (simp add: raw_output_def)
    ultimately show "the_call (run_relay raw_step
        (chunk_events ss @ [ResponseReady readable (ReadBytes []), RawChildExit st]) r) =
        Some (raw_verdict st (take 255 (concat ss)))"
      using r1(1) q(1) by (cases rule: OnChildProcessExit_cases [OF inv, of st])
        (simp_all add: run_relay_append)
  next
    let ?q = "r1\<lparr>raw_pidfd := False, status := Some st\<rparr>"
    have exit: "RawExecRelay_OnChildProcessExit st r1 = Running () ?q" and inv: "raw_inv ?q"
      using r1(2,4) by (auto simp: RawExecRelay_OnChildProcessExit_def raw_inv_def)
    obtain q where q: "OnResponsePipeReady readable (ReadBytes []) ?q = close_response_pipe q"
        "raw_inv q" "\<not> raw_pidfd q" "status q = Some st" "raw_output q = raw_output ?q"
      using read_eof [OF inv] by force
    then have "raw_output q = take 255 (concat ss)"
      using r1(5) by (simp add: raw_output_def)
    with q show "the_call (run_relay raw_step
        (chunk_events ss @ [RawChildExit st, ResponseReady readable (ReadBytes [])]) r) =
        Some (raw_verdict st (take 255 (concat ss)))"
      using r1(1) exit by (cases rule: close_response_pipe_cases [OF q(2)])
        (simp_all add: run_relay_append)
  qed
qed

definition sample_raw :: RawExecRelay where
  "sample_raw = \<lparr>raw_pidfd = True, request_buffer = [], input_written = [], request_pipe = False,
     request_write = False, response_pipe = True,
     response_buffer = replicate 256 (CHR 0x00), response_fill = 1, status = None,
     raw_spawned = Some (sample_spawn [(10, 0), (13, 1), (13, 2)]), pipe_fds = Some (11, 12)\<rparr>"

lemma sample_raw_inv: "raw_inv sample_raw"
  by (simp add: sample_raw_def raw_inv_def RESPONSE_BUFFER_SIZE_def)

theorem raw_relay_verdict_witness:
  "the_call (run_relay raw_step
      (chunk_events [''no '', ''such user''] @
        [RawChildExit (exited 77), ResponseReady readable (ReadBytes [])]) sample_raw) =
    Some (RelayError ''Dno such user'')"
proof -
  have "the_call (run_relay raw_step
      (chunk_events [''no '', ''such user''] @
        [RawChildExit (exited 77), ResponseReady readable (ReadBytes [])]) sample_raw) =
      Some (raw_verdict (exited 77) (take 255 (concat [''no '', ''such user''])))"
    by (rule raw_relay_verdict [THEN conjunct2]) (simp_all add: sample_raw_inv, simp_all add: sample_raw_def)
  then show ?thesis
    by (simp add: raw_verdict_def raw_code_def ExitStatusToQmqpResponse_def EX_NOPERM_def)
qed

text \<open>C15: A child is started as its protocol needs it. The program is the first argument of the
  action, the arguments and the environment are those of the action, no signal is blocked
  and \<open>SIGPIPE\<close> is not ignored, whatever the server does with signals; the child's standard input is the read end of the pipe
  the relay writes the request to, its standard output (of a raw child the standard error
  output, too) the write end of the pipe the relay reads from, and it holds no other end.\<close>

theorem child_started:
  assumes "pipes_opened os t"
  shows "(\<forall>u x'. ExecRelay_Start a os x = Running u x' \<longrightarrow>
      started_for a False t (spawned x') (client_fds x')) \<and>
    (\<forall>u y'. RawExecRelay_Start a os w y = Running u y' \<longrightarrow>
      started_for a True t (raw_spawned y') (pipe_fds y'))"
proof (intro conjI allI impI)
  fix u x' assume "ExecRelay_Start a os x = Running u x'"
  then show "started_for a False t (spawned x') (client_fds x')"
    by (rule exec_Start_Running)
      (simp add: client_Request_def started_for_pipes(1) [OF _ _ assms, unfolded One_nat_def])
next
  fix u y' assume "RawExecRelay_Start a os w y = Running u y'"
  then show "started_for a True t (raw_spawned y') (pipe_fds y')"
    by (rule raw_Start_Running) (simp add: started_for_pipes(2) [OF _ _ assms, unfolded One_nat_def])
qed

theorem child_started_witness:
  "started_for \<lparr>type = EXEC, connect = [], exec = [''/bin/x''], env = [], timeout = -1\<rparr> False sample_fds
    (Some (sample_spawn [(10, 0), (13, 1)])) (Some (11, 12))"
proof -
  let ?a = "\<lparr>type = EXEC, connect = [], exec = [''/bin/x''], env = [], timeout = -1\<rparr>"
  have "ExecRelay_Start ?a sample_spawn_env sample_exec =
      Running True (client_Request (sample_exec\<lparr>spawned := Some (sample_spawn [(10, 0), (13, 1)]),
        pidfd := True, client_fds := Some (11, 12)\<rparr>))"
    by (simp add: ExecRelay_Start_def prepare_spawn_def fill_array_eq MAX_EXEC_def MAX_ENV_def c_str_def)
  from child_started [OF sample_fds_opened, THEN conjunct1, rule_format, OF this] show ?thesis
    by (simp add: client_Request_def)
qed

end
