(* ===== verification/Delivery.thy ===== *)
theory Delivery
  imports RawExecRelay
begin

text \<open>
  What the child of \<open>src/RawExecRelay.cxx\<close> reads. The relay writes its buffers to the pipe in as
  many steps as the pipe needs; in between the child may write, close its output or exit.
  The theory follows the bytes that have gone into the pipe.
\<close>

section \<open>The writes\<close>

text \<open>Along a run of the relay: the writes obey the law, and the bytes they write.\<close>

fun event_law :: "raw_event \<Rightarrow> RawExecRelay \<Rightarrow> bool" where
  "event_law (RequestReady w) r = write_law (request_buffer r) w"
| "event_law _ r = True"

fun event_written :: "raw_event \<Rightarrow> RawExecRelay \<Rightarrow> string" where
  "event_written (RequestReady w) r = written w (request_buffer r)"
| "event_written _ r = []"

primrec run_law :: "raw_event list \<Rightarrow> RawExecRelay \<Rightarrow> bool" where
  "run_law [] r = True"
| "run_law (e # es) r = (event_law e r \<and> (case raw_step e r of Running u r' \<Rightarrow> run_law es r' | _ \<Rightarrow> True))"

primrec run_written :: "raw_event list \<Rightarrow> RawExecRelay \<Rightarrow> string" where
  "run_written [] r = []"
| "run_written (e # es) r =
     event_written e r @ (case raw_step e r of Running u r' \<Rightarrow> run_written es r' | _ \<Rightarrow> [])"

section \<open>The invariant\<close>

text \<open>The pipe is open exactly as long as there is something left to write.\<close>

definition input_inv :: "RawExecRelay \<Rightarrow> bool" where
  "input_inv r \<longleftrightarrow> (request_pipe r \<longleftrightarrow> concat (request_buffer r) \<noteq> [])"

text \<open>The input of the child: the bytes it has been given so far and the ones it will be given.\<close>

definition raw_input :: "RawExecRelay \<Rightarrow> string" where
  "raw_input r = input_written r @ concat (request_buffer r)"

text \<open>The other events do not touch it.\<close>

lemma Finish_not_running: "RawExecRelay_Finish r \<noteq> Running u r'"
  by (simp add: RawExecRelay_Finish_def Let_def split: option.split)

lemma output_events_frame:
  "OnResponsePipeReady ev rd r = Running u r' \<Longrightarrow>
    request_buffer r' = request_buffer r \<and> request_pipe r' = request_pipe r \<and> input_written r' = input_written r"
  "RawExecRelay_OnChildProcessExit st r = Running u r' \<Longrightarrow>
    request_buffer r' = request_buffer r \<and> request_pipe r' = request_pipe r \<and> input_written r' = input_written r"
  by (auto simp: OnResponsePipeReady_eq RawExecRelay_OnChildProcessExit_def close_response_pipe_def
      TryRead_def Let_def Finish_not_running split: outcome.splits if_splits option.splits)

lemma TryWrite_input:
  assumes "request_pipe r" and "write_law (request_buffer r) w" and "TryWrite w r = Running u r'"
  shows "input_inv r' \<and> written w (request_buffer r) @ concat (request_buffer r') = concat (request_buffer r) \<and>
    raw_input r' = raw_input r"
proof (cases w)
  case (WriteMore rest)
  then have "written w (request_buffer r) @ concat rest = concat (request_buffer r)"
    using assms(2) written_more by blast
  moreover have "r' = r\<lparr>input_written := input_written r @ written w (request_buffer r),
      request_buffer := rest, request_write := True\<rparr>" "concat rest \<noteq> []"
    using assms(2,3) WriteMore by (simp_all add: TryWrite_def Let_def)
  ultimately show ?thesis
    using assms(1) by (simp add: input_inv_def raw_input_def)
qed (use assms in \<open>auto simp: TryWrite_def Let_def input_inv_def raw_input_def\<close>)

lemma step_input:
  assumes "raw_enabled r e" and "event_law e r" and "input_inv r" and "raw_step e r = Running u r'"
  shows "input_inv r' \<and> event_written e r @ concat (request_buffer r') = concat (request_buffer r) \<and>
    raw_input r' = raw_input r"
proof (cases e)
  case (RequestReady w)
  with assms TryWrite_input [of r w] show ?thesis
    by (auto simp: OnRequestPipeReady_def split: outcome.splits)
qed (use assms output_events_frame in \<open>auto simp: input_inv_def raw_input_def\<close>)

lemma step_prefix:
  "event_law e r \<Longrightarrow> prefix (event_written e r) (concat (request_buffer r))"
  by (cases e) (simp_all add: written_prefix)

lemma run_input:
  assumes "run_enabled raw_step raw_enabled es r" and "run_law es r" and "input_inv r"
  shows "prefix (run_written es r) (concat (request_buffer r)) \<and>
    (\<forall>u r'. run_relay raw_step es r = Running u r' \<longrightarrow> input_inv r' \<and>
       run_written es r @ concat (request_buffer r') = concat (request_buffer r))"
  using assms
proof (induction es arbitrary: r)
  case (Cons e es)
  show ?case
  proof (cases "raw_step e r")
    case (Running u r1)
    with Cons.prems have r1: "input_inv r1" "concat (request_buffer r) = event_written e r @ concat (request_buffer r1)"
      using step_input [of r e u r1] by simp_all
    have run: "run_enabled raw_step raw_enabled es r1" "run_law es r1"
      using Cons.prems Running by simp_all
    have "prefix (event_written e r @ run_written es r1) (event_written e r @ concat (request_buffer r1))"
      using Cons.IH [OF run] r1 by simp
    then have pre: "prefix (run_written (e # es) r) (concat (request_buffer r))"
      using r1 Running by simp
    have "input_inv r' \<and> run_written (e # es) r @ concat (request_buffer r') = concat (request_buffer r)"
      if "run_relay raw_step (e # es) r = Running v r'" for v r'
      using Cons.IH [OF run] r1 Running that by simp
    with pre show ?thesis
      by blast
  qed (use Cons.prems step_prefix in simp_all)
qed simp

lemma RawExecRelay_new_input:
  "request_buffer (RawExecRelay_new mail hs) = hs @ [message mail]"
  "input_written (RawExecRelay_new mail hs) = []"
  by (simp_all add: RawExecRelay_new_def)

lemma Start_writes:
  assumes "RawExecRelay_Start a os w r = Running u r0"
  obtains q where "request_pipe q" "request_buffer q = request_buffer r" "input_written q = input_written r"
    "TryWrite w q = Running u r0"
proof -
  from assms obtain x y where "TryWrite w (r\<lparr>raw_spawned := Some x, raw_pidfd := True, response_pipe := True,
      request_pipe := True, pipe_fds := Some y\<rparr>) = Running u r0"
    by (auto simp: RawExecRelay_Start_def Let_def split: if_splits option.splits sum.splits)
  then show thesis
    by (rule that [rotated 3]) simp_all
qed

text \<open>When the relay has started, the input of its child is the headers and the message.\<close>

lemma Start_input:
  assumes "RawExecRelay_Start a os w (RawExecRelay_new mail hs) = Running u r0"
    and "write_law (hs @ [message mail]) w"
  shows "raw_input r0 = concat hs @ message mail \<and> input_inv r0"
proof -
  obtain q where q: "request_pipe q" "request_buffer q = hs @ [message mail]" "input_written q = []"
      "TryWrite w q = Running u r0"
    using Start_writes [OF assms(1)] by (metis RawExecRelay_new_input)
  then show ?thesis
    using TryWrite_input [OF q(1) _ q(4)] assms(2) by (simp add: raw_input_def)
qed

section \<open>Properties\<close>

text \<open>C14: A raw child reads the headers and the message, all of it and in order, and the end of its
  input means that it has read everything. However the pipe takes the bytes, and whatever
  the child does in between: what has been written is a beginning of the input, and while
  the relay runs it has closed the pipe if and only if the whole input is written.\<close>

theorem raw_input_in_order:
  assumes "RawExecRelay_Start a os w (RawExecRelay_new mail hs) = Running u r0"
    and "write_law (hs @ [message mail]) w"
    and "run_enabled raw_step raw_enabled es r0" and "run_law es r0"
    and "out = written w (hs @ [message mail]) @ run_written es r0"
  shows "prefix out (concat hs @ message mail) \<and>
    (\<forall>v r. run_relay raw_step es r0 = Running v r \<longrightarrow> (\<not> request_pipe r \<longleftrightarrow> out = concat hs @ message mail))"
proof -
  have new: "request_buffer (RawExecRelay_new mail hs) = hs @ [message mail]"
    by (simp add: RawExecRelay_new_def)
  obtain q where q: "request_pipe q" "request_buffer q = hs @ [message mail]" "TryWrite w q = Running u r0"
    using Start_writes [OF assms(1)] new by metis
  have r0: "input_inv r0" "written w (hs @ [message mail]) @ concat (request_buffer r0) = concat hs @ message mail"
    using TryWrite_input [OF q(1) _ q(3)] assms(2) q(2) by simp_all
  note run = run_input [OF assms(3,4) r0(1)]
  then have "prefix out (written w (hs @ [message mail]) @ concat (request_buffer r0))"
    by (simp add: assms(5))
  moreover have "\<not> request_pipe r \<longleftrightarrow> out = concat hs @ message mail"
    if "run_relay raw_step es r0 = Running v r" for v r
  proof -
    have "input_inv r" "out @ concat (request_buffer r) = concat hs @ message mail"
      using run that r0(2) by (simp_all add: assms(5))
    then show ?thesis
      by (metis append_self_conv input_inv_def)
  qed
  ultimately show ?thesis
    unfolding r0(2) by blast
qed

definition sample_message :: QmqpMail where
  "sample_message = \<lparr>message = ''body'', tail = [], sender = [], recipients = []\<rparr>"

definition sample_raw_action :: Action where
  "sample_raw_action = \<lparr>type = EXEC_RAW, connect = [], exec = [''/bin/x''], env = [], timeout = -1\<rparr>"

theorem raw_input_in_order_witness:
  "\<exists>r0 r. RawExecRelay_Start sample_raw_action sample_spawn_env (WriteMore [''dy''])
      (RawExecRelay_new sample_message [''X: y'' @ CRLF]) = Running True r0 \<and>
    run_relay raw_step [RawChildExit (exited 0), RequestReady WriteFinished] r0 = Running () r \<and>
    \<not> request_pipe r"
proof -
  let ?es = "[RawChildExit (exited 0), RequestReady WriteFinished]"
  obtain r0 where r0: "RawExecRelay_Start sample_raw_action sample_spawn_env (WriteMore [''dy''])
      (RawExecRelay_new sample_message [''X: y'' @ CRLF]) = Running True r0"
      "request_buffer r0 = [''dy'']" "request_pipe r0" "raw_pidfd r0" "response_pipe r0"
    by (simp add: RawExecRelay_Start_def sample_raw_action_def prepare_spawn_def fill_array_eq MAX_EXEC_def
        MAX_ENV_def c_str_def TryWrite_def Let_def)
  have step: "raw_step (RawChildExit (exited 0)) r0 = Running () (r0\<lparr>raw_pidfd := False, status := Some (exited 0)\<rparr>)"
    using r0(5) by (simp add: RawExecRelay_OnChildProcessExit_def)
  then obtain r where run: "run_relay raw_step ?es r0 = Running () r"
    by (simp add: OnRequestPipeReady_def TryWrite_def Let_def)
  have law: "write_law ([''X: y'' @ CRLF] @ [message sample_message]) (WriteMore [''dy''])"
    by (simp add: sample_message_def suffix_def)
  have "run_enabled raw_step raw_enabled ?es r0" "run_law ?es r0"
    using r0(3,4) step by (simp_all split: outcome.split)
  from raw_input_in_order [OF r0(1) law this refl] run step r0(2) have "\<not> request_pipe r"
    by (simp add: sample_message_def)
  with r0(1) run show ?thesis
    by blast
qed

end
