(* ===== verification/LMail.thy ===== *)
theory LMail
  imports MutableMail
begin

text \<open>
  \<open>src/LMail.cxx\<close>: the mail object as the Lua handler sees it. Mail objects live in a heap
  of userdata, addressed by numbers, so that a script may keep one beyond the life of its
  connection (it is then stale). Every C function is a function of its argument stack and
  the heap; it fails with a Lua error or returns the values it pushes and the new heap.
\<close>

section \<open>The object\<close>

text \<open>\<open>SocketPeerAuth\<close>: the credentials of the client process, if the kernel passed them.\<close>

record peer_auth =
  have_cred :: bool
  pid :: "32 word"
  uid :: "32 word"
  gid :: "32 word"

text \<open>\<open>auto_close\<close> tells whether the pointer to the list is set; the function environment
  serves as a cache for attributes.\<close>

record IncomingMail = MutableMail +
  auto_close :: bool
  peer :: peer_auth
  n_headers :: nat
  fenv :: "string \<rightharpoonup> lua_value"

type_synonym lua_heap = "nat \<rightharpoonup> IncomingMail"
type_synonym lua_result = "lua_error + lua_value list \<times> lua_heap"

definition MAX_HEADERS :: nat where
  "MAX_HEADERS = 16"

definition NewIncomingMail :: "MutableMail \<Rightarrow> peer_auth \<Rightarrow> IncomingMail" where
  "NewIncomingMail src p = MutableMail.extend src
     \<lparr>auto_close = True, peer = p, n_headers = 0, fenv = Map.empty\<rparr>"

definition IsStale :: "IncomingMail \<Rightarrow> bool" where
  "IsStale m \<longleftrightarrow> \<not> auto_close m"

definition Close :: "IncomingMail \<Rightarrow> IncomingMail" where
  "Close m = Free (m\<lparr>auto_close := False\<rparr>)"

definition CheckStale :: "IncomingMail \<Rightarrow> lua_error + unit" where
  "CheckStale m = (if IsStale m then Inl (LuaError ''Stale object'') else Inr ())"

section \<open>Reading arguments\<close>

text \<open>\<open>luaL_checklstring()\<close>: strings, and numbers by conversion.\<close>

definition CheckStringView :: "libs \<Rightarrow> lua_value list \<Rightarrow> nat \<Rightarrow> lua_error + string" where
  "CheckStringView L args i =
     (case arg args i of
        LString s \<Rightarrow> Inr s
      | LNumber x \<Rightarrow> Inr (lua_number2str L x)
      | _ \<Rightarrow> Inl (LuaTypeError i))"

definition CastLuaMail :: "lua_value list \<Rightarrow> lua_heap \<Rightarrow> nat \<Rightarrow> lua_error + nat \<times> IncomingMail" where
  "CastLuaMail args h i =
     (case arg args i of
        LMail k \<Rightarrow> (case h k of Some m \<Rightarrow> Inr (k, m) | None \<Rightarrow> Inl (LuaTypeError i))
      | _ \<Rightarrow> Inl (LuaTypeError i))"

section \<open>Inserting a header\<close>

definition IsValidHeaderNameChar :: "char \<Rightarrow> bool" where
  "IsValidHeaderNameChar ch \<longleftrightarrow>
     33 \<le> (of_char ch :: nat) \<and> (of_char ch :: nat) \<le> 126 \<and> ch \<noteq> CHR '':''"

definition IsValidHeaderName :: "libs \<Rightarrow> string \<Rightarrow> bool" where
  "IsValidHeaderName L s = CheckCharsNonEmpty L IsValidHeaderNameChar s"

definition IsValidHeaderValueChar :: "char \<Rightarrow> bool" where
  "IsValidHeaderValueChar ch \<longleftrightarrow> 32 \<le> (of_char ch :: nat) \<and> (of_char ch :: nat) \<le> 126"

definition IsValidHeaderValue :: "libs \<Rightarrow> string \<Rightarrow> bool" where
  "IsValidHeaderValue L s = CheckChars L IsValidHeaderValueChar s"

definition InsertHeader :: "libs \<Rightarrow> lua_value list \<Rightarrow> lua_heap \<Rightarrow> lua_result" where
  "InsertHeader L args h =
     (if length args \<noteq> 3 then Inl (LuaError ''Invalid parameters'') else
      and_then (CheckStringView L args 2) (\<lambda>name.
      if \<not> IsValidHeaderName L name then Inl (LuaArgError 2 ''Illegal header name'') else
      and_then (CheckStringView L args 3) (\<lambda>val.
      if \<not> IsValidHeaderValue L val then Inl (LuaArgError 2 ''Illegal header value'') else
      and_then (CastLuaMail args h 1) (\<lambda>(k, mail).
      and_then (CheckStale mail) (\<lambda>_.
      if MAX_HEADERS \<le> n_headers mail then Inl (LuaError ''Too many headers'') else
      let mail = mail\<lparr>n_headers := n_headers mail + 1\<rparr> in
      Inr ([], h(k \<mapsto> MutableMail_InsertHeader L name val mail)))))))"

section \<open>Creating actions\<close>

definition NewConnectAction :: "libs \<Rightarrow> lua_value list \<Rightarrow> lua_heap \<Rightarrow> lua_result" where
  "NewConnectAction L args h =
     (if length args \<noteq> 2 then Inl (LuaError ''Invalid parameters'') else
      case ToSocketAddress L (arg args 2) 628 of
        None \<Rightarrow> Inl LuaException
      | Some address \<Rightarrow>
          Inr ([LAction (NewLuaAction\<lparr>type := CONNECT, connect := address\<rparr>)], h))"

definition NewDiscardAction :: "lua_value list \<Rightarrow> lua_heap \<Rightarrow> lua_result" where
  "NewDiscardAction args h =
     (if length args \<noteq> 1 then Inl (LuaError ''Invalid parameters'') else
      Inr ([LAction (NewLuaAction\<lparr>type := DISCARD\<rparr>)], h))"

definition NewRejectAction :: "lua_value list \<Rightarrow> lua_heap \<Rightarrow> lua_result" where
  "NewRejectAction args h =
     (if length args \<noteq> 1 then Inl (LuaError ''Invalid parameters'') else
      Inr ([LAction (NewLuaAction\<lparr>type := REJECT\<rparr>)], h))"

fun CollectExecEnv ::
  "libs \<Rightarrow> (lua_value \<times> lua_value) list \<Rightarrow> Action \<Rightarrow> lua_error + Action" where
  "CollectExecEnv L [] action = Inr action"
| "CollectExecEnv L ((name_idx, value_idx) # table) action =
     (if MAX_ENV \<le> length (env action) then Inl (LuaError ''Too many environment variables'')
      else case name_idx of
        LString name \<Rightarrow>
          (case value_idx of
             LString val \<Rightarrow> CollectExecEnv L table (action\<lparr>env :=
               env action @ [fmt_format L ''{}={}'' [FStr name, FStr val]]\<rparr>)
           | _ \<Rightarrow> Inl (LuaError ''Environment value is not a string''))
      | _ \<Rightarrow> Inl (LuaError ''Environment name is not a string''))"

definition collect_timeout :: "libs \<Rightarrow> lua_value \<Rightarrow> Action \<Rightarrow> lua_error + Action" where
  "collect_timeout L v action =
     (case lua_tonumber L v of
        None \<Rightarrow> Inl (LuaError ''Timeout is not a number'')
      | Some seconds \<Rightarrow>
          if \<not> isnormal seconds then Inl (LuaError ''Bad timeout value'')
          else case seconds of
            Finite q \<Rightarrow>
              if q \<le> 0 \<or> 3600 < q then Inl (LuaError ''Bad timeout value'')
              else Inr (action\<lparr>timeout := duration_cast L q\<rparr>)
          | _ \<Rightarrow> Inl (LuaError ''Bad timeout value''))"

fun CollectExecOptions ::
  "libs \<Rightarrow> (lua_value \<times> lua_value) list \<Rightarrow> Action \<Rightarrow> lua_error + Action" where
  "CollectExecOptions L [] action = Inr action"
| "CollectExecOptions L ((key_idx, value_idx) # table) action =
     (case key_idx of
        LString key \<Rightarrow>
          and_then
            (if key = ''env'' then
               (case value_idx of
                  LTable t \<Rightarrow> CollectExecEnv L t action
                | _ \<Rightarrow> Inl (LuaError ''Env is not a table''))
             else if key = ''timeout'' then collect_timeout L value_idx action
             else Inl (LuaError ''Unknown option''))
            (CollectExecOptions L table)
      | _ \<Rightarrow> Inl (LuaError ''Option key is not a string''))"

text \<open>The loop over the stack positions \<open>i = 2, ..., top\<close>.\<close>

fun collect_args ::
  "libs \<Rightarrow> lua_value list \<Rightarrow> nat list \<Rightarrow> Action \<Rightarrow> lua_error + Action" where
  "collect_args L args [] action = Inr action"
| "collect_args L args (i # is) action =
     (if MAX_EXEC \<le> length (exec action) then Inl (LuaArgError i ''Too many arguments'')
      else and_then (CheckStringView L args i) (\<lambda>s.
        collect_args L args is (action\<lparr>exec := exec action @ [s]\<rparr>)))"

definition CollectExec ::
  "libs \<Rightarrow> Action \<Rightarrow> lua_value list \<Rightarrow> nat \<Rightarrow> lua_error + Action" where
  "CollectExec L action args n =
     (case arg args n of
        LTable t \<Rightarrow>
          if 2 < n
          then and_then (CollectExecOptions L t action) (collect_args L args [2..<Suc (n - 1)])
          else collect_args L args [2..<Suc n] action
      | _ \<Rightarrow> collect_args L args [2..<Suc n] action)"

definition NewExecAction :: "libs \<Rightarrow> lua_value list \<Rightarrow> lua_heap \<Rightarrow> lua_result" where
  "NewExecAction L args h =
     (let n = length args in
      if n < 2 then Inl (LuaError ''Not enough parameters'') else
      and_then (CollectExec L (NewLuaAction\<lparr>type := EXEC\<rparr>) args n) (\<lambda>action.
      Inr ([LAction action], h)))"

definition NewExecRawAction :: "libs \<Rightarrow> lua_value list \<Rightarrow> lua_heap \<Rightarrow> lua_result" where
  "NewExecRawAction L args h =
     (let n = length args in
      if n < 2 then Inl (LuaError ''Not enough parameters'') else
      and_then (CollectExec L (NewLuaAction\<lparr>type := EXEC_RAW\<rparr>) args n) (\<lambda>action.
      Inr ([LAction action], h)))"

section \<open>Methods and attributes\<close>

text \<open>The table \<open>mail_methods\<close>, and calling one of its functions.\<close>

definition mail_methods :: "string list" where
  "mail_methods = [''insert_header'', ''connect'', ''discard'', ''reject'', ''exec'', ''exec_raw'']"

definition call_method :: "libs \<Rightarrow> string \<Rightarrow> lua_value list \<Rightarrow> lua_heap \<Rightarrow> lua_result" where
  "call_method L name args h =
     (if name = ''insert_header'' then InsertHeader L args h
      else if name = ''connect'' then NewConnectAction L args h
      else if name = ''discard'' then NewDiscardAction args h
      else if name = ''reject'' then NewRejectAction args h
      else if name = ''exec'' then NewExecAction L args h
      else if name = ''exec_raw'' then NewExecRawAction L args h
      else Inl (LuaError ''attempt to call a nil value''))"

definition PushArray :: "string list \<Rightarrow> lua_value" where
  "PushArray src = LTable (map (\<lambda>(i, s). (LNumber (Finite (of_nat i)), LString s))
     (zip [1..<Suc (length src)] src))"

text \<open>\<open>peer_auth.GetCgroupPath()\<close> asks the kernel at each call; its answer is the parameter
  \<open>cgroup\<close>, \<open>None\<close> when it throws.\<close>

definition Index :: "libs \<Rightarrow> string option \<Rightarrow> lua_value list \<Rightarrow> lua_heap \<Rightarrow> lua_result" where
  "Index L cgroup args h =
     and_then (CastLuaMail args h 1) (\<lambda>(k, mail).
     if length args \<noteq> 2 then Inl (LuaError ''Invalid parameters'') else
     and_then (CheckStringView L args 2) (\<lambda>name_value.
     let name = c_str name_value in
     and_then (CheckStale mail) (\<lambda>_.
     if name \<in> set mail_methods then Inr ([LFunction name], h) else
     case fenv mail name_value of
       Some v \<Rightarrow> Inr ([v], h)
     | None \<Rightarrow>
       if name = ''sender'' then Inr ([LString (sender mail)], h)
       else if name = ''recipients'' then Inr ([PushArray (recipients mail)], h)
       else if name = ''pid'' then
         (if \<not> have_cred (peer mail) then Inr ([], h)
          else Inr ([LNumber (Finite (of_int (sint (pid (peer mail)))))], h))
       else if name = ''uid'' then
         (if \<not> have_cred (peer mail) then Inr ([], h)
          else Inr ([LNumber (Finite (of_int (uint (uid (peer mail)))))], h))
       else if name = ''gid'' then
         (if \<not> have_cred (peer mail) then Inr ([], h)
          else Inr ([LNumber (Finite (of_int (uint (gid (peer mail)))))], h))
       else if name = ''cgroup'' then
         (case cgroup of
            None \<Rightarrow> Inl LuaException
          | Some path \<Rightarrow>
              if path = [] then Inr ([], h)
              else Inr ([LCgroupInfo path],
                h(k \<mapsto> mail\<lparr>fenv := (fenv mail)(name_value \<mapsto> LCgroupInfo path)\<rparr>)))
       else Inl (LuaError ''Unknown attribute''))))"

definition NewIndex :: "libs \<Rightarrow> lua_value list \<Rightarrow> lua_heap \<Rightarrow> lua_result" where
  "NewIndex L args h =
     and_then (CastLuaMail args h 1) (\<lambda>(k, mail).
     if length args \<noteq> 3 then Inl (LuaError ''Invalid parameters'') else
     and_then (CheckStale mail) (\<lambda>_.
     and_then (CheckStringView L args 2) (\<lambda>name_value.
     let name = c_str name_value in
     if name = ''sender'' then
       and_then (CheckStringView L args 3) (\<lambda>new_value.
       if \<not> VerifyEmailAddress L new_value
       then Inl (LuaArgError 3 ''Malformed email address'')
       else Inr ([], h(k \<mapsto> SetSender new_value mail)))
     else if name = ''account'' then
       (if arg args 3 = LNil then Inr ([], h(k \<mapsto> mail\<lparr>account := []\<rparr>))
        else and_then (CheckStringView L args 3) (\<lambda>new_value.
          if new_value = [] then Inl (LuaArgError 3 ''Empty string not allowed'')
          else Inr ([], h(k \<mapsto> mail\<lparr>account := new_value\<rparr>))))
     else Inl (LuaError ''Cannot change this attribute''))))"

section \<open>The life of a mail object\<close>

text \<open>\<open>NewLuaMail()\<close> puts the object into a free cell of the heap.\<close>

definition NewLuaMail :: "nat \<Rightarrow> MutableMail \<Rightarrow> peer_auth \<Rightarrow> lua_heap \<Rightarrow> lua_heap" where
  "NewLuaMail k src p h = h(k \<mapsto> NewIncomingMail src p)"

text \<open>The \<open>__close\<close> method, called by the list of objects to be closed.\<close>

definition close_mail :: "nat \<Rightarrow> lua_heap \<Rightarrow> lua_heap" where
  "close_mail k h = (case h k of None \<Rightarrow> h | Some m \<Rightarrow> h(k \<mapsto> Close m))"

text \<open>What a script can do with mail objects: call a method, read or write an attribute. A
  script may catch the error of a failed call (\<open>pcall\<close>) and go on; the failed call has
  left the heap as it was. The third function of the metatable, \<open>__close\<close>, is not among the
  calls: no index, assignment or method call leads to it, it is called by the list of
  objects to be closed (\<open>close_mail\<close>); a script that fetches the metatable by
  \<open>getmetatable()\<close> and calls its \<open>__close\<close> is not modelled.\<close>

datatype lua_call =
    CallMethod string "lua_value list"
  | GetAttribute "string option" "lua_value list"
  | SetAttribute "lua_value list"

fun lua_exec :: "libs \<Rightarrow> lua_call \<Rightarrow> lua_heap \<Rightarrow> lua_result" where
  "lua_exec L (CallMethod name args) h = call_method L name args h"
| "lua_exec L (GetAttribute cgroup args) h = Index L cgroup args h"
| "lua_exec L (SetAttribute args) h = NewIndex L args h"

definition heap_after :: "lua_result \<Rightarrow> lua_heap \<Rightarrow> lua_heap" where
  "heap_after r h = (case r of Inl _ \<Rightarrow> h | Inr (_, h') \<Rightarrow> h')"

definition lua_run :: "libs \<Rightarrow> lua_call list \<Rightarrow> lua_heap \<Rightarrow> lua_heap" where
  "lua_run L cs h = foldl (\<lambda>h c. heap_after (lua_exec L c h) h) h cs"

section \<open>Well-formed headers and mails\<close>

text \<open>A header is one line: a name of visible characters without a colon, a colon and a
  space, a value of printable characters, and one line end.\<close>

definition header_line :: "string \<Rightarrow> bool" where
  "header_line h \<longleftrightarrow> (\<exists>n v. h = n @ '': '' @ v @ CRLF \<and> n \<noteq> [] \<and>
     list_all IsValidHeaderNameChar n \<and> list_all IsValidHeaderValueChar v)"

definition mail_ok :: "libs \<Rightarrow> IncomingMail \<Rightarrow> bool" where
  "mail_ok L m \<longleftrightarrow> list_all header_line (headers m) \<and> length (headers m) \<le> n_headers m \<and>
     n_headers m \<le> MAX_HEADERS \<and> (\<not> IsStale m \<longrightarrow> envelope_ok L m)"

definition heap_ok :: "libs \<Rightarrow> lua_heap \<Rightarrow> bool" where
  "heap_ok L h \<longleftrightarrow> (\<forall>k m. h k = Some m \<longrightarrow> mail_ok L m)"

text \<open>What no method may change: the message, the recipients and their wire form, the
  received buffer, and whether the object is stale.\<close>

definition same_content :: "IncomingMail \<Rightarrow> IncomingMail \<Rightarrow> bool" where
  "same_content m m' \<longleftrightarrow> message m' = message m \<and> recipients m' = recipients m \<and>
     tail m' = tail m \<and> buffer m' = buffer m \<and> auto_close m' = auto_close m \<and> peer m' = peer m"

lemma same_content_refl [simp]: "same_content m m"
  by (simp add: same_content_def)

lemma same_content_trans: "same_content a b \<Longrightarrow> same_content b c \<Longrightarrow> same_content a c"
  by (simp add: same_content_def)

lemma heap_okD: "heap_ok L h \<Longrightarrow> h k = Some m \<Longrightarrow> mail_ok L m"
  by (simp add: heap_ok_def)

lemma heap_ok_upd [wf_intros]: "heap_ok L h \<Longrightarrow> mail_ok L m \<Longrightarrow> heap_ok L (h(k \<mapsto> m))"
  by (simp add: heap_ok_def)

lemma mail_ok_Close [wf_intros]: "mail_ok L m \<Longrightarrow> mail_ok L (Close m)"
  by (simp add: mail_ok_def Close_def Free_def IsStale_def)

lemma NewIncomingMail_fields:
  "envelope_ok L (NewIncomingMail src p) = envelope_ok L src"
  "headers (NewIncomingMail src p) = headers src"
  "n_headers (NewIncomingMail src p) = 0"
  "IsStale (NewIncomingMail src p) = False"
  by (simp_all add: envelope_ok_def IsStale_def NewIncomingMail_def MutableMail.extend_def)

lemma mail_ok_New:
  "envelope_ok L src \<Longrightarrow> headers src = [] \<Longrightarrow> mail_ok L (NewIncomingMail src p)"
  by (simp add: mail_ok_def NewIncomingMail_fields)

lemma not_valid_line_end:
  "\<not> IsValidHeaderNameChar CR" "\<not> IsValidHeaderNameChar LF"
  "\<not> IsValidHeaderValueChar CR" "\<not> IsValidHeaderValueChar LF"
  by (simp_all add: IsValidHeaderNameChar_def IsValidHeaderValueChar_def)

lemma header_line_InsertHeader:
  assumes "check_chars_law L" and "fmt_law L"
    and "IsValidHeaderName L n" and "IsValidHeaderValue L v"
  shows "header_line (fmt_format L (''{}: {}'' @ CRLF) [FStr n, FStr v])"
  using assms unfolding fmt_header [OF assms(2)]
  by (auto simp: header_line_def IsValidHeaderName_def IsValidHeaderValue_def check_chars_law_def)

text \<open>The line terminator occurs in a header line at its end and nowhere else.\<close>

lemma header_line_single:
  assumes "header_line h"
  shows "\<exists>t. h = t @ CRLF \<and> CR \<notin> set t \<and> LF \<notin> set t"
proof -
  from assms obtain n v where h: "h = n @ '': '' @ v @ CRLF"
      and "list_all IsValidHeaderNameChar n" "list_all IsValidHeaderValueChar v"
    by (auto simp: header_line_def)
  then have "CR \<notin> set n" "LF \<notin> set n" "CR \<notin> set v" "LF \<notin> set v"
    using not_valid_line_end by (auto simp only: list_all_iff)
  then have "CR \<notin> set (n @ '': '' @ v)" "LF \<notin> set (n @ '': '' @ v)"
    by simp_all
  moreover have "h = (n @ '': '' @ v) @ CRLF"
    using h by simp
  ultimately show ?thesis
    by blast
qed

section \<open>The contract of a function called from Lua\<close>

text \<open>Every function the script can call on mail objects keeps them well formed, keeps their
  content, and does not touch a stale one.\<close>

locale lua_method =
  fixes L :: libs
    and f :: "lua_value list \<Rightarrow> lua_heap \<Rightarrow> lua_result"
  assumes keeps_ok: "check_chars_law L \<Longrightarrow> fmt_law L \<Longrightarrow> f args h = Inr (vs, h') \<Longrightarrow>
      heap_ok L h \<Longrightarrow> heap_ok L h'"
    and keeps_content: "f args h = Inr (vs, h') \<Longrightarrow> h k = Some m \<Longrightarrow>
      \<exists>m'. h' k = Some m' \<and> same_content m m' \<and> (IsStale m \<longrightarrow> m' = m)"
    and keeps_dom: "f args h = Inr (vs, h') \<Longrightarrow> dom h' = dom h"
begin

lemma after_ok:
  "check_chars_law L \<Longrightarrow> fmt_law L \<Longrightarrow> heap_ok L h \<Longrightarrow> heap_ok L (heap_after (f args h) h)"
  using keeps_ok by (auto simp: heap_after_def split: sum.splits)

lemma after_content:
  "h k = Some m \<Longrightarrow> \<exists>m'. heap_after (f args h) h k = Some m' \<and> same_content m m' \<and>
    (IsStale m \<longrightarrow> m' = m)"
  using keeps_content by (force simp: heap_after_def split: sum.splits)

lemma after_dom: "dom (heap_after (f args h) h) = dom h"
  using keeps_dom by (force simp: heap_after_def split: sum.splits)

end

lemma dom_upd_same: "h k = Some m \<Longrightarrow> dom (h(k \<mapsto> m')) = dom h"
  by (simp add: insert_absorb domI)

text \<open>A function that replaces at most one live object by a well-formed object of the same
  content meets the contract.\<close>

lemma lua_methodI:
  assumes "\<And>args h vs h'. f args h = Inr (vs, h') \<Longrightarrow>
    h' = h \<or> (\<exists>k m m'. h k = Some m \<and> \<not> IsStale m \<and> h' = h(k \<mapsto> m') \<and> same_content m m' \<and>
      (check_chars_law L \<longrightarrow> fmt_law L \<longrightarrow> mail_ok L m \<longrightarrow> mail_ok L m'))"
  shows "lua_method L f"
proof
  fix args h vs h'
  assume f: "f args h = Inr (vs, h')"
  note cases = assms [OF f]
  show "heap_ok L h'" if "check_chars_law L" "fmt_law L" "heap_ok L h"
    using cases that by (auto intro!: heap_ok_upd dest: heap_okD)
  show "\<exists>m'. h' k = Some m' \<and> same_content m m' \<and> (IsStale m \<longrightarrow> m' = m)"
    if "h k = Some m" for k m
    using cases that by (auto split: if_splits)
  from cases consider "h' = h" | k m m' where "h k = Some m" "h' = h(k \<mapsto> m')"
    by blast
  then show "dom h' = dom h"
  proof cases
    case (2 k m m')
    with dom_upd_same [where h = h and k = k and m = m and m' = m'] show ?thesis
      by (simp only: simp_thms)
  qed simp
qed

lemma CastLuaMail_Inr: "CastLuaMail args h i = Inr (k, m) \<longleftrightarrow> arg args i = LMail k \<and> h k = Some m"
  by (auto simp: CastLuaMail_def split: lua_value.splits option.splits)

lemma CheckStale_Inr: "CheckStale m = Inr x \<longleftrightarrow> \<not> IsStale m"
  by (simp add: CheckStale_def)

lemmas lua_Inr = result_Inr CastLuaMail_Inr CheckStale_Inr

lemma InsertHeader_Inr:
  "InsertHeader L args h = Inr (vs, h') \<longleftrightarrow>
    (\<exists>name val k m. length args = 3 \<and> CheckStringView L args 2 = Inr name \<and>
      IsValidHeaderName L name \<and> CheckStringView L args 3 = Inr val \<and>
      IsValidHeaderValue L val \<and> arg args 1 = LMail k \<and> h k = Some m \<and> \<not> IsStale m \<and>
      n_headers m < MAX_HEADERS \<and> vs = [] \<and>
      h' = h(k \<mapsto> MutableMail_InsertHeader L name val (m\<lparr>n_headers := n_headers m + 1\<rparr>)))"
  by (auto simp: InsertHeader_def lua_Inr Let_def not_le)

lemma action_method_Inr:
  "NewConnectAction L args h = Inr (vs, h') \<Longrightarrow> h' = h"
  "NewDiscardAction args h = Inr (vs, h') \<Longrightarrow> h' = h"
  "NewRejectAction args h = Inr (vs, h') \<Longrightarrow> h' = h"
  "NewExecAction L args h = Inr (vs, h') \<Longrightarrow> h' = h"
  "NewExecRawAction L args h = Inr (vs, h') \<Longrightarrow> h' = h"
  by (auto simp: NewConnectAction_def NewDiscardAction_def NewRejectAction_def NewExecAction_def
      NewExecRawAction_def Let_def lua_Inr split: if_splits option.splits)

interpretation insert_header: lua_method L "InsertHeader L" for L
proof (rule lua_methodI)
  fix args h vs h'
  assume "InsertHeader L args h = Inr (vs, h')"
  then obtain name val k m where m: "h k = Some m" "\<not> IsStale m" "n_headers m < MAX_HEADERS"
      and valid: "IsValidHeaderName L name" "IsValidHeaderValue L val"
      and h': "h' = h(k \<mapsto> MutableMail_InsertHeader L name val (m\<lparr>n_headers := n_headers m + 1\<rparr>))"
    unfolding InsertHeader_Inr by blast
  let ?m' = "MutableMail_InsertHeader L name val (m\<lparr>n_headers := n_headers m + 1\<rparr>)"
  have "same_content m ?m'"
    by (simp add: same_content_def MutableMail_InsertHeader_def)
  moreover have "check_chars_law L \<longrightarrow> fmt_law L \<longrightarrow> mail_ok L m \<longrightarrow> mail_ok L ?m'"
    using m header_line_InsertHeader [OF _ _ valid]
    by (auto simp: mail_ok_def MutableMail_InsertHeader_def envelope_ok_def IsStale_def)
  ultimately show "h' = h \<or> (\<exists>k m m'. h k = Some m \<and> \<not> IsStale m \<and> h' = h(k \<mapsto> m') \<and>
      same_content m m' \<and> (check_chars_law L \<longrightarrow> fmt_law L \<longrightarrow> mail_ok L m \<longrightarrow> mail_ok L m'))"
    using m h' by blast
qed

interpretation methods: lua_method L "call_method L name" for L name
proof -
  have eq: "call_method L name args h = Inr (vs, h') \<Longrightarrow> InsertHeader L args h = Inr (vs, h') \<or> h' = h"
    for args h vs h'
    by (auto simp: call_method_def split: if_splits dest: action_method_Inr)
  show "lua_method L (call_method L name)"
  proof
    fix args h vs h'
    assume "call_method L name args h = Inr (vs, h')"
    note cases = eq [OF this]
    show "heap_ok L h'" if "check_chars_law L" "fmt_law L" "heap_ok L h"
      using cases that insert_header.keeps_ok by blast
    show "\<exists>m'. h' k = Some m' \<and> same_content m m' \<and> (IsStale m \<longrightarrow> m' = m)"
      if "h k = Some m" for k m
      using cases that insert_header.keeps_content by fastforce
    show "dom h' = dom h"
      using cases insert_header.keeps_dom by blast
  qed
qed

text \<open>Reading an attribute changes at most the cache; writing one sets the sender, which must
  verify, or the account.\<close>

lemma Index_Inr:
  assumes "Index L cgroup args h = Inr (vs, h')"
  obtains k m where "arg args 1 = LMail k" "h k = Some m" "\<not> IsStale m"
    "h' = h \<or> (\<exists>c. h' = h(k \<mapsto> m\<lparr>fenv := c\<rparr>))"
  using assms
  by (auto simp: Index_def lua_Inr Let_def split: if_splits option.splits)

lemma NewIndex_Inr:
  assumes "NewIndex L args h = Inr (vs, h')"
  shows "\<exists>k m m'. arg args 1 = LMail k \<and> h k = Some m \<and> \<not> IsStale m \<and> h' = h(k \<mapsto> m') \<and>
    ((\<exists>s. VerifyEmailAddress L s \<and> m' = SetSender s m) \<or> (\<exists>a. m' = m\<lparr>account := a\<rparr>))"
proof -
  from assms obtain k m name where m: "arg args 1 = LMail k" "h k = Some m" "\<not> IsStale m"
    and r: "(if c_str name = ''sender'' then
       and_then (CheckStringView L args 3) (\<lambda>new_value.
       if \<not> VerifyEmailAddress L new_value
       then Inl (LuaArgError 3 ''Malformed email address'')
       else Inr ([], h(k \<mapsto> SetSender new_value m)))
     else if c_str name = ''account'' then
       (if arg args 3 = LNil then Inr ([], h(k \<mapsto> m\<lparr>account := []\<rparr>))
        else and_then (CheckStringView L args 3) (\<lambda>new_value.
          if new_value = [] then Inl (LuaArgError 3 ''Empty string not allowed'')
          else Inr ([], h(k \<mapsto> m\<lparr>account := new_value\<rparr>))))
     else Inl (LuaError ''Cannot change this attribute'')) = Inr (vs, h')"
    unfolding NewIndex_def lua_Inr Let_def by (auto simp: lua_Inr)
  from r have "\<exists>m'. h' = h(k \<mapsto> m') \<and>
      ((\<exists>s. VerifyEmailAddress L s \<and> m' = SetSender s m) \<or> (\<exists>a. m' = m\<lparr>account := a\<rparr>))"
    by (auto simp: lua_Inr split: if_splits)
  with m show ?thesis
    by blast
qed

interpretation attributes: lua_method L "Index L cgroup" for L cgroup
proof (rule lua_methodI)
  fix args h vs h'
  assume "Index L cgroup args h = Inr (vs, h')"
  then show "h' = h \<or> (\<exists>k m m'. h k = Some m \<and> \<not> IsStale m \<and> h' = h(k \<mapsto> m') \<and>
      same_content m m' \<and> (check_chars_law L \<longrightarrow> fmt_law L \<longrightarrow> mail_ok L m \<longrightarrow> mail_ok L m'))"
  proof (rule Index_Inr)
    fix k m
    assume "h k = Some m" "\<not> IsStale m" "h' = h \<or> (\<exists>c. h' = h(k \<mapsto> m\<lparr>fenv := c\<rparr>))"
    moreover have "same_content m (m\<lparr>fenv := c\<rparr>)" "mail_ok L m \<longrightarrow> mail_ok L (m\<lparr>fenv := c\<rparr>)" for c
      by (simp_all add: same_content_def mail_ok_def envelope_ok_def IsStale_def)
    ultimately show ?thesis
      by blast
  qed
qed

interpretation assignment: lua_method L "NewIndex L" for L
proof (rule lua_methodI)
  fix args h vs h'
  assume "NewIndex L args h = Inr (vs, h')"
  then obtain k m m' where m: "h k = Some m" "\<not> IsStale m" "h' = h(k \<mapsto> m')"
    and "(\<exists>s. VerifyEmailAddress L s \<and> m' = SetSender s m) \<or> (\<exists>a. m' = m\<lparr>account := a\<rparr>)"
    using NewIndex_Inr by blast
  then have "same_content m m' \<and> (mail_ok L m \<longrightarrow> mail_ok L m')"
    by (auto simp: same_content_def mail_ok_def envelope_ok_def IsStale_def SetSender_def)
  with m show "h' = h \<or> (\<exists>k m m'. h k = Some m \<and> \<not> IsStale m \<and> h' = h(k \<mapsto> m') \<and>
      same_content m m' \<and> (check_chars_law L \<longrightarrow> fmt_law L \<longrightarrow> mail_ok L m \<longrightarrow> mail_ok L m'))"
    by blast
qed

section \<open>Scripts\<close>

lemma lua_exec_after:
  "check_chars_law L \<Longrightarrow> fmt_law L \<Longrightarrow> heap_ok L h \<Longrightarrow> heap_ok L (heap_after (lua_exec L c h) h)"
  "dom (heap_after (lua_exec L c h) h) = dom h"
  "h k = Some m \<Longrightarrow> \<exists>m'. heap_after (lua_exec L c h) h k = Some m' \<and> same_content m m' \<and>
     (IsStale m \<longrightarrow> m' = m)"
  by (cases c; simp add: methods.after_ok attributes.after_ok assignment.after_ok
      methods.after_dom attributes.after_dom assignment.after_dom
      methods.after_content attributes.after_content assignment.after_content)+

lemma lua_run_simps [simp]:
  "lua_run L [] h = h"
  "lua_run L (c # cs) h = lua_run L cs (heap_after (lua_exec L c h) h)"
  by (simp_all add: lua_run_def)

lemma lua_run_ok:
  "check_chars_law L \<Longrightarrow> fmt_law L \<Longrightarrow> heap_ok L h \<Longrightarrow> heap_ok L (lua_run L cs h)"
  by (induction cs arbitrary: h) (simp_all add: lua_exec_after)

lemma lua_run_content:
  "h k = Some m \<Longrightarrow> \<exists>m'. lua_run L cs h k = Some m' \<and> same_content m m' \<and>
    (IsStale m \<longrightarrow> m' = m)"
proof (induction cs arbitrary: h m)
  case Nil
  then show ?case by simp
next
  case (Cons c cs)
  obtain m1
    where m1: "heap_after (lua_exec L c h) h k = Some m1" "same_content m m1" "IsStale m \<longrightarrow> m1 = m"
    using lua_exec_after(3) [where h = h and k = k and m = m and L = L and c = c] Cons.prems
    by blast
  obtain m2 where "lua_run L cs (heap_after (lua_exec L c h) h) k = Some m2"
      "same_content m1 m2" "IsStale m1 \<longrightarrow> m2 = m1"
    using Cons.IH [where h = "heap_after (lua_exec L c h) h" and m = m1] m1(1) by blast
  with m1(2,3) show ?case
    by (auto intro: same_content_trans)
qed

section \<open>Actions created by the methods\<close>

text \<open>What the options table may change.\<close>

definition same_program :: "Action \<Rightarrow> Action \<Rightarrow> bool" where
  "same_program a a' \<longleftrightarrow> type a' = type a \<and> exec a' = exec a \<and> connect a' = connect a"

lemma CollectExecEnv_ok:
  "CollectExecEnv L t a = Inr a' \<Longrightarrow> length (env a) \<le> MAX_ENV \<Longrightarrow>
    same_program a a' \<and> timeout a' = timeout a \<and> length (env a') \<le> MAX_ENV \<and>
    length (env a') = length (env a) + length t"
proof (induction L t a rule: CollectExecEnv.induct)
  case (1 L a)
  then show ?case by (simp add: same_program_def)
next
  case (2 L n v t a)
  then obtain name val where nv: "n = LString name" "v = LString val"
      and room: "\<not> MAX_ENV \<le> length (env a)"
      and rest: "CollectExecEnv L t
        (a\<lparr>env := env a @ [fmt_format L ''{}={}'' [FStr name, FStr val]]\<rparr>) = Inr a'"
    by (auto split: if_splits lua_value.splits)
  from "2.IH" [OF room nv rest] room show ?case
    by (simp add: same_program_def)
qed

text \<open>A timeout is the default or the count of a duration between zero (not included) and an
  hour.\<close>

definition timeout_ok :: "libs \<Rightarrow> int \<Rightarrow> bool" where
  "timeout_ok L t \<longleftrightarrow> t = -1 \<or> (\<exists>q. 0 < q \<and> q \<le> 3600 \<and> t = duration_cast L q)"

lemma collect_timeout_ok:
  "collect_timeout L v a = Inr a' \<Longrightarrow> same_program a a' \<and> env a' = env a \<and> timeout_ok L (timeout a')"
  by (auto simp: collect_timeout_def same_program_def timeout_ok_def not_le not_less
      split: option.splits if_splits lua_number.splits)

lemma CollectExecOptions_ok:
  "CollectExecOptions L t a = Inr a' \<Longrightarrow> length (env a) \<le> MAX_ENV \<Longrightarrow> timeout_ok L (timeout a) \<Longrightarrow>
    same_program a a' \<and> length (env a') \<le> MAX_ENV \<and> timeout_ok L (timeout a')"
proof (induction L t a arbitrary: a' rule: CollectExecOptions.induct)
  case (1 L a)
  then show ?case by (simp add: same_program_def)
next
  case (2 L k v t a)
  then obtain key where k: "k = LString key"
    by (auto split: lua_value.splits)
  from "2.prems"(1) obtain a1 where
    a1: "key = ''env'' \<and> (\<exists>e. v = LTable e \<and> CollectExecEnv L e a = Inr a1) \<or>
       key = ''timeout'' \<and> collect_timeout L v a = Inr a1"
    and rest: "CollectExecOptions L t a1 = Inr a'"
    by (auto simp: k result_Inr split: if_splits lua_value.splits)
  then have "same_program a a1 \<and> length (env a1) \<le> MAX_ENV \<and> timeout_ok L (timeout a1)"
    using "2.prems"(2,3) CollectExecEnv_ok collect_timeout_ok by fastforce
  with "2.IH" [OF k] rest show ?case
    by (auto simp: same_program_def)
qed

lemma collect_args_ok:
  "collect_args L args is a = Inr a' \<Longrightarrow> length (exec a) \<le> MAX_EXEC \<Longrightarrow>
    type a' = type a \<and> env a' = env a \<and> timeout a' = timeout a \<and> length (exec a') \<le> MAX_EXEC \<and>
    (\<exists>ss. exec a' = exec a @ ss \<and> list_all2 (\<lambda>i s. CheckStringView L args i = Inr s) is ss)"
proof (induction L args "is" a rule: collect_args.induct)
  case (1 L args a)
  then show ?case by simp
next
  case (2 L args i "is" a)
  then obtain s where s: "CheckStringView L args i = Inr s" "length (exec a) < MAX_EXEC"
      and rest: "collect_args L args is (a\<lparr>exec := exec a @ [s]\<rparr>) = Inr a'"
    by (auto simp: result_Inr not_le)
  from s have "\<not> MAX_EXEC \<le> length (exec a)" by simp
  from "2.IH" [OF this rest] s(2) obtain ss where ss: "exec a' = (exec a @ [s]) @ ss"
      "list_all2 (\<lambda>i s. CheckStringView L args i = Inr s) is ss"
      "type a' = type a" "env a' = env a" "timeout a' = timeout a" "length (exec a') \<le> MAX_EXEC"
    by auto
  with s(1) have "exec a' = exec a @ (s # ss) \<and>
      list_all2 (\<lambda>i s. CheckStringView L args i = Inr s) (i # is) (s # ss)"
    by simp
  with ss show ?case
    by blast
qed

lemma CollectExec_ok:
  assumes "CollectExec L a args n = Inr a'" and "2 \<le> n"
    and "exec a = []" and "env a = []" and "timeout a = -1"
  shows "type a' = type a \<and> exec_ok a' \<and> timeout_ok L (timeout a')"
proof -
  have *: "type a' = type a \<and> exec_ok a' \<and> timeout_ok L (timeout a')"
    if "collect_args L args (2 # is) a1 = Inr a'" "same_program a a1" "length (env a1) \<le> MAX_ENV"
      "timeout_ok L (timeout a1)" for "is" a1
    using collect_args_ok [OF that(1)] that(2-) assms(3)
    by (auto simp: same_program_def exec_ok_def list_all2_Cons1 MAX_EXEC_def)
  have a: "same_program a a" "length (env a) \<le> MAX_ENV" "timeout_ok L (timeout a)"
    using assms by (simp_all add: same_program_def timeout_ok_def)
  have upt: "[2..<k] = 2 # [3..<k]" if "2 < k" for k
    using that by (simp add: upt_conv_Cons)
  have "(\<exists>t a1. 2 < n \<and> CollectExecOptions L t a = Inr a1 \<and>
      collect_args L args [2..<n] a1 = Inr a') \<or> collect_args L args [2..<Suc n] a = Inr a'"
    using assms(1)
    by (auto simp: CollectExec_def result_Inr simp del: upt_Suc split: lua_value.splits if_splits)
  then show ?thesis
  proof (elim disjE exE conjE)
    fix t a1
    assume n: "2 < n" and opts: "CollectExecOptions L t a = Inr a1"
      and args: "collect_args L args [2..<n] a1 = Inr a'"
    from args [unfolded upt [OF n]] show ?thesis
      by (rule *) (use CollectExecOptions_ok [OF opts a(2,3)] in simp_all)
  next
    assume "collect_args L args [2..<Suc n] a = Inr a'"
    moreover from assms(2) have "2 < Suc n" by simp
    ultimately have "collect_args L args (2 # [3..<Suc n]) a = Inr a'"
      by (simp only: upt)
    then show ?thesis
      by (rule *) (rule a)+
  qed
qed

lemma method_action:
  assumes "call_method L name args h = Inr (vs, h')"
  shows "vs = [] \<or> (\<exists>a. vs = [LAction a] \<and> action_ok a \<and> timeout_ok L (timeout a))"
proof -
  have exec: "exec_ok a' \<and> type a' = t \<and> timeout_ok L (timeout a')"
    if "CollectExec L (NewLuaAction\<lparr>type := t\<rparr>) args (length args) = Inr a'"
      "2 \<le> length args" for a' t
    using CollectExec_ok [OF that] by (simp add: NewLuaAction_def new_action_def)
  have plain: "action_ok (NewLuaAction\<lparr>type := DISCARD\<rparr>)" "action_ok (NewLuaAction\<lparr>type := REJECT\<rparr>)"
      "action_ok (NewLuaAction\<lparr>type := CONNECT, connect := d\<rparr>)"
      "timeout_ok L (timeout NewLuaAction)" for d
    by (simp_all add: action_ok_def IsDefined_def NewLuaAction_def new_action_def timeout_ok_def)
  consider "InsertHeader L args h = Inr (vs, h')" | "NewConnectAction L args h = Inr (vs, h')"
    | "NewDiscardAction args h = Inr (vs, h')" | "NewRejectAction args h = Inr (vs, h')"
    | "NewExecAction L args h = Inr (vs, h')" | "NewExecRawAction L args h = Inr (vs, h')"
    using assms by (auto simp: call_method_def split: if_splits)
  then show ?thesis
  proof cases
    case 1
    then show ?thesis by (auto simp: InsertHeader_Inr)
  next
    case 2
    with plain show ?thesis
      by (auto simp: NewConnectAction_def split: if_splits option.splits)
  next
    case 3
    with plain show ?thesis by (auto simp: NewDiscardAction_def split: if_splits)
  next
    case 4
    with plain show ?thesis by (auto simp: NewRejectAction_def split: if_splits)
  next
    case 5
    then show ?thesis
      by (auto simp: NewExecAction_def Let_def result_Inr action_ok_def IsDefined_def
          dest: exec)
  next
    case 6
    then show ?thesis
      by (auto simp: NewExecRawAction_def Let_def result_Inr action_ok_def IsDefined_def
          dest: exec)
  qed
qed

section \<open>Reading headers\<close>

text \<open>How a reader of a message splits it into header fields: a line ends with the first line
  terminator; a field is a name before the first colon, and what follows the blank. It
  reads on until a line is no field.\<close>

fun split_line :: "string \<Rightarrow> (string \<times> string) option" where
  "split_line (c # d # t) =
     (if c = CR \<and> d = LF then Some ([], t)
      else map_option (apfst (Cons c)) (split_line (d # t)))"
| "split_line _ = None"

definition split_field :: "string \<Rightarrow> (string \<times> string) option" where
  "split_field l =
     (let n = takeWhile (\<lambda>c. c \<noteq> CHR '':'') l; r = dropWhile (\<lambda>c. c \<noteq> CHR '':'') l
      in if n \<noteq> [] \<and> take 2 r = '': '' then Some (n, drop 2 r) else None)"

lemma split_line_shorter: "split_line s = Some (l, r) \<Longrightarrow> length r < length s"
  by (induction s arbitrary: l rule: split_line.induct) (auto split: if_splits)

function read_fields :: "string \<Rightarrow> (string \<times> string) list" where
  "read_fields s =
     (case split_line s of
        None \<Rightarrow> []
      | Some (l, r) \<Rightarrow> (case split_field l of None \<Rightarrow> [] | Some f \<Rightarrow> f # read_fields r))"
  by pat_completeness auto
termination
  by (relation "measure length") (auto dest: split_line_shorter)

declare read_fields.simps [simp del]

text \<open>A field that may be inserted: the name is not empty and consists of visible characters but
  the colon, the value of printable characters.\<close>

definition valid_field :: "string \<times> string \<Rightarrow> bool" where
  "valid_field f \<longleftrightarrow> fst f \<noteq> [] \<and>
     (\<forall>c \<in> set (fst f). (of_char c :: nat) \<in> {33..126} - {58}) \<and>
     (\<forall>c \<in> set (snd f). (of_char c :: nat) \<in> {32..126})"

lemma colon_code: "c = CHR '':'' \<longleftrightarrow> (of_char c :: nat) = 58"
proof
  assume "(of_char c :: nat) = 58"
  then have "of_char c = (of_char (CHR '':'') :: nat)"
    by simp
  then show "c = CHR '':''"
    by (simp only: of_char_eq_iff)
qed simp

lemma valid_field_iff:
  "valid_field (n, v) \<longleftrightarrow>
    n \<noteq> [] \<and> list_all IsValidHeaderNameChar n \<and> list_all IsValidHeaderValueChar v"
  by (auto simp: valid_field_def list_all_iff IsValidHeaderNameChar_def IsValidHeaderValueChar_def colon_code)

lemma split_line_end:
  "CR \<notin> set l \<Longrightarrow> split_line (l @ CRLF @ r) = Some (l, r)"
proof (induction l)
  case (Cons c l)
  then show ?case
    by (cases "l @ CRLF @ r") auto
qed simp

lemma split_field_end:
  assumes "n \<noteq> []" and "CHR '':'' \<notin> set n"
  shows "split_field (n @ '': '' @ v) = Some (n, v)"
  using assms by (auto simp: split_field_def takeWhile_append dropWhile_append)

lemma read_field:
  assumes "valid_field (n, v)"
  shows "read_fields (n @ '': '' @ v @ CRLF @ r) = (n, v) # read_fields r"
proof -
  have "n \<noteq> []" "CR \<notin> set n" "CR \<notin> set v" "CHR '':'' \<notin> set n"
    using assms not_valid_line_end IsValidHeaderNameChar_def [of "CHR '':''"]
    unfolding valid_field_iff list_all_iff by blast+
  with split_line_end [of "n @ '': '' @ v" r] split_field_end [of n v] show ?thesis
    by (subst read_fields.simps) simp
qed

text \<open>\<open>insert_header\<close> on a live mail. The name must be a non-empty string of visible
  characters without a colon, the value printable; at most 16 headers are accepted; on
  success the line goes to the front of the list and nothing else changes.\<close>

lemma InsertHeader_spec:
  assumes "check_chars_law L" and "fmt_law L" and "h k = Some m" and "\<not> IsStale m"
  shows "InsertHeader L [LMail k, LString n, LString v] h =
    (if n = [] \<or> \<not> list_all IsValidHeaderNameChar n
     then Inl (LuaArgError 2 ''Illegal header name'')
     else if \<not> list_all IsValidHeaderValueChar v
     then Inl (LuaArgError 2 ''Illegal header value'')
     else if 16 \<le> n_headers m then Inl (LuaError ''Too many headers'')
     else Inr ([], h(k \<mapsto> m\<lparr>n_headers := n_headers m + 1,
       headers := (n @ '': '' @ v @ CRLF) # headers m\<rparr>)))"
  using assms fmt_header [OF assms(2), of n v]
  by (simp add: InsertHeader_def CheckStringView_def arg_def IsValidHeaderName_def
      IsValidHeaderValue_def check_chars_law_def CastLuaMail_def CheckStale_def MAX_HEADERS_def
      MutableMail_InsertHeader_def)

text \<open>The calls of a script that inserts these fields.\<close>

definition insert_calls :: "nat \<Rightarrow> (string \<times> string) list \<Rightarrow> lua_call list" where
  "insert_calls k ps =
     map (\<lambda>(n, v). CallMethod ''insert_header'' [LMail k, LString n, LString v]) ps"

definition accepted_fields :: "IncomingMail \<Rightarrow> (string \<times> string) list \<Rightarrow> (string \<times> string) list" where
  "accepted_fields m ps = take (16 - n_headers m) (filter valid_field ps)"

lemma insert_call:
  assumes "check_chars_law L" and "fmt_law L" and "h k = Some m" and "\<not> IsStale m"
  shows "heap_after (call_method L ''insert_header'' [LMail k, LString n, LString v] h) h =
    (if valid_field (n, v) \<and> n_headers m < 16
     then h(k \<mapsto> m\<lparr>n_headers := n_headers m + 1, headers := (n @ '': '' @ v @ CRLF) # headers m\<rparr>)
     else h)"
  using InsertHeader_spec [of L h k m n v, OF assms]
  by (auto simp: call_method_def heap_after_def valid_field_iff)

lemma inserted_fields:
  assumes "check_chars_law L" and "fmt_law L" and "h k = Some m" and "\<not> IsStale m"
  shows "\<exists>m'. lua_run L (insert_calls k ps) h k = Some m' \<and> sender m' = sender m \<and>
    read_fields (concat (headers m') @ body) =
      rev (accepted_fields m ps) @ read_fields (concat (headers m) @ body)"
  using assms(3,4)
proof (induction ps arbitrary: h m)
  case Nil
  then show ?case
    by (simp add: insert_calls_def accepted_fields_def)
next
  case (Cons p ps)
  obtain n v where p [simp]: "p = (n, v)"
    by (cases p)
  have run: "lua_run L (insert_calls k ((n, v) # ps)) h =
      lua_run L (insert_calls k ps) (heap_after (call_method L ''insert_header'' [LMail k, LString n, LString v] h) h)"
    by (simp add: insert_calls_def)
  show ?case
  proof (cases "valid_field (n, v) \<and> n_headers m < 16")
    case True
    let ?m = "m\<lparr>n_headers := n_headers m + 1, headers := (n @ '': '' @ v @ CRLF) # headers m\<rparr>"
    have "accepted_fields m ((n, v) # ps) = (n, v) # accepted_fields ?m ps"
      using True by (simp add: accepted_fields_def take_Cons' diff_Suc split: nat.split)
    moreover have stale: "\<not> IsStale ?m"
      using Cons.prems(2) by (simp add: IsStale_def)
    ultimately show ?thesis
      using Cons.IH [of "h(k \<mapsto> ?m)" ?m, OF fun_upd_same stale] insert_call [of L h k m n v, OF assms(1,2) Cons.prems] True
        read_field [of n v "concat (headers m) @ body"]
      by (auto simp: run simp del: fun_upd_apply)
  next
    case False
    have "accepted_fields m ((n, v) # ps) = accepted_fields m ps"
      using False by (auto simp: accepted_fields_def)
    with Cons.IH [of h m, OF Cons.prems] insert_call [of L h k m n v, OF assms(1,2) Cons.prems] False show ?thesis
      by (simp add: run)
  qed
qed

section \<open>Properties\<close>

definition sample_peer :: peer_auth where
  "sample_peer = \<lparr>have_cred = True, pid = 4711, uid = 1000, gid = 100\<rparr>"

definition sample_mail :: IncomingMail where
  "sample_mail = NewIncomingMail ((new_mutable_mail (Some ''1:m,3:a@b,3:c@d,''))
     \<lparr>message := ''m'', sender := ''a@b'', tail := '',3:c@d,'', recipients := [''c@d'']\<rparr>) sample_peer"

lemma sample_mail_live: "\<not> IsStale sample_mail" "n_headers sample_mail = 0" "headers sample_mail = []"
  by (simp_all add: sample_mail_def NewIncomingMail_fields new_mutable_mail_def)

text \<open>C28: What a script inserts is what is read. Whatever fields a script tries to insert, in any
  order and number: a reader of the message finds, in front of what it would have found
  otherwise, exactly those whose name is a non-empty word of visible characters without a
  colon and whose value is printable, the last one first, as far as the limit of 16
  headers allows; each with the name and the value that were given. The received message,
  the recipients and the sender stay as they are.\<close>

theorem inserted_headers:
  assumes "check_chars_law L" and "fmt_law L" and "h k = Some m" and "\<not> IsStale m"
  shows "\<exists>m'. lua_run L (insert_calls k ps) h k = Some m' \<and>
    read_fields (concat (headers m') @ body) =
      rev (take (16 - n_headers m) (filter
        (\<lambda>(n, v). n \<noteq> [] \<and> (\<forall>c \<in> set n. (of_char c :: nat) \<in> {33..126} \<and> c \<noteq> CHR '':'') \<and>
           (\<forall>c \<in> set v. (of_char c :: nat) \<in> {32..126})) ps)) @
      read_fields (concat (headers m) @ body) \<and>
    same_content m m' \<and> sender m' = sender m"
proof -
  have "(\<lambda>(n, v). n \<noteq> [] \<and> (\<forall>c \<in> set n. (of_char c :: nat) \<in> {33..126} \<and> c \<noteq> CHR '':'') \<and>
      (\<forall>c \<in> set v. (of_char c :: nat) \<in> {32..126})) = valid_field"
    by (auto simp: valid_field_def fun_eq_iff colon_code)
  with inserted_fields [of L h k m ps body, OF assms] lua_run_content [of h k m L "insert_calls k ps"] assms(3)
  show ?thesis
    by (auto simp: accepted_fields_def)
qed

theorem inserted_headers_witness:
  "\<exists>m'. lua_run ref_libs (insert_calls 0 [(''X-A'', ''b''), (''X: A'', ''b''), (''X-B'', ''c: d'')])
      [0 \<mapsto> sample_mail] 0 = Some m' \<and>
    read_fields (concat (headers m') @ ''Subject: x'' @ CRLF @ CRLF @ ''body'') =
      [(''X-B'', ''c: d''), (''X-A'', ''b''), (''Subject'', ''x'')]"
proof -
  let ?body = "''Subject: x'' @ CRLF @ CRLF @ ''body''"
  have "read_fields (concat (headers sample_mail) @ ?body) = [(''Subject'', ''x'')]"
    unfolding sample_mail_live by code_simp
  moreover have "rev (take (16 - n_headers sample_mail) (filter
        (\<lambda>(n, v). n \<noteq> [] \<and> (\<forall>c \<in> set n. (of_char c :: nat) \<in> {33..126} \<and> c \<noteq> CHR '':'') \<and>
           (\<forall>c \<in> set v. (of_char c :: nat) \<in> {32..126}))
        [(''X-A'', ''b''), (''X: A'', ''b''), (''X-B'', ''c: d'')])) = [(''X-B'', ''c: d''), (''X-A'', ''b'')]"
    by (simp add: sample_mail_live)
  ultimately show ?thesis
    using inserted_headers [of ref_libs "[0 \<mapsto> sample_mail]" 0 sample_mail
        "[(''X-A'', ''b''), (''X: A'', ''b''), (''X-B'', ''c: d'')]" ?body] sample_mail_live(1)
    by auto
qed

lemma sample_mail_ok: "mail_ok ref_libs sample_mail"
  unfolding sample_mail_def
proof (rule mail_ok_New)
  have "VerifyEmailAddress ref_libs ''a@b''" "VerifyEmailAddress ref_libs ''c@d''"
    by code_simp+
  moreover have "loose_netstring ''3:c@d,'' ''c@d''"
  proof -
    have "netstring ''c@d'' = ''3:c@d,''" by code_simp
    with loose_netstring_netstring [of "''c@d''"] show ?thesis by simp
  qed
  ultimately show "envelope_ok ref_libs (new_mutable_mail (Some ''1:m,3:a@b,3:c@d,'')
     \<lparr>message := ''m'', sender := ''a@b'', tail := '',3:c@d,'', recipients := [''c@d'']\<rparr>)"
    by (auto simp: envelope_ok_def MAX_RECIPIENTS_def intro!: exI [of _ "[''3:c@d,'']"])
qed (simp add: new_mutable_mail_def)

lemma sample_heap_ok: "heap_ok ref_libs [0 \<mapsto> sample_mail]"
  using sample_mail_ok by (simp add: heap_ok_def)

text \<open>C19: No header injection. After any script, each header the relay will put in front of
  a message ends with the line terminator and contains no other carriage return or line
  feed, so the script has added exactly as many lines as it made successful calls.\<close>

theorem no_header_injection:
  assumes "check_chars_law L" and "fmt_law L" and "heap_ok L h"
    and "lua_run L cs h k = Some m"
  shows "list_all (\<lambda>l. \<exists>t. l = t @ CRLF \<and> CR \<notin> set t \<and> LF \<notin> set t) (headers m) \<and>
    length (headers m) \<le> 16"
proof -
  have "mail_ok L m"
    using lua_run_ok [OF assms(1-3)] assms(4) by (rule heap_okD)
  then show ?thesis
    using header_line_single by (auto simp: mail_ok_def MAX_HEADERS_def list_all_iff)
qed

theorem no_header_injection_witness:
  "list_all (\<lambda>l. \<exists>t. l = t @ CRLF \<and> CR \<notin> set t \<and> LF \<notin> set t)
    (headers (the (lua_run ref_libs
      [CallMethod ''insert_header'' [LMail 0, LString ''X-A'', LString ''b'']] [0 \<mapsto> sample_mail] 0)))"
proof -
  obtain m where m: "lua_run ref_libs
      [CallMethod ''insert_header'' [LMail 0, LString ''X-A'', LString ''b'']] [0 \<mapsto> sample_mail] 0 = Some m"
    using lua_run_content [of "[0 \<mapsto> sample_mail]" 0 sample_mail] by fastforce
  from no_header_injection [OF _ _ sample_heap_ok m] show ?thesis
    unfolding m by simp
qed

text \<open>C29: A stale object is dead. Once a mail has been closed, no script changes it any more,
  its fields are empty, and every access to it fails.\<close>

theorem stale_mail_is_dead:
  assumes "h k = Some m"
  shows "lua_run L cs (close_mail k h) k = Some (Close m) \<and>
    headers (Close m) = [] \<and> sender (Close m) = [] \<and> buffer (Close m) = None \<and>
    (\<forall>args. args \<noteq> [] \<and> hd args = LMail k \<longrightarrow>
       (\<exists>e. InsertHeader L args (close_mail k h) = Inl e) \<and>
       (\<exists>e. Index L c args (close_mail k h) = Inl e) \<and>
       (\<exists>e. NewIndex L args (close_mail k h) = Inl e))"
proof -
  let ?h = "close_mail k h"
  have k: "?h k = Some (Close m)" and stale: "IsStale (Close m)"
    using assms by (simp_all add: close_mail_def Close_def Free_def IsStale_def)
  have "lua_run L cs ?h k = Some (Close m)"
    using lua_run_content [where h = ?h and k = k and m = "Close m" and L = L and cs = cs] k stale
    by blast
  moreover have "\<exists>e. InsertHeader L args ?h = Inl e" "\<exists>e. Index L c args ?h = Inl e"
      "\<exists>e. NewIndex L args ?h = Inl e" if "args \<noteq> []" "hd args = LMail k" for args
  proof -
    from that have arg1: "arg args 1 = LMail k"
      by (cases args) (simp_all add: arg_def)
    show "\<exists>e. InsertHeader L args ?h = Inl e"
    proof (cases "InsertHeader L args ?h")
      case (Inr r)
      then show ?thesis
        using arg1 k stale by (cases r) (auto simp: InsertHeader_Inr)
    qed blast
    show "\<exists>e. Index L c args ?h = Inl e"
    proof (cases "Index L c args ?h")
      case (Inr r)
      then show ?thesis
        using arg1 k stale by (cases r) (auto elim!: Index_Inr)
    qed blast
    show "\<exists>e. NewIndex L args ?h = Inl e"
    proof (cases "NewIndex L args ?h")
      case (Inr r)
      then show ?thesis
        using arg1 k stale by (cases r) (auto dest!: NewIndex_Inr)
    qed blast
  qed
  ultimately show ?thesis
    by (simp add: Close_def Free_def)
qed

theorem stale_mail_is_dead_witness:
  "lua_run ref_libs [SetAttribute [LMail 0, LString ''account'', LString ''x'']]
     (close_mail 0 [0 \<mapsto> sample_mail]) 0 = Some (Close sample_mail)"
  by (rule stale_mail_is_dead [THEN conjunct1]) simp

text \<open>C30: Every action object a script can obtain is complete. It is never \<open>UNDEFINED\<close>; an
  action that runs a program has at least the program's name, and neither its arguments nor
  its environment exceed the 32 slots that \<open>Start()\<close> copies them to; the timeout is the
  default or comes from a number in (0, 3600].\<close>

theorem method_actions_ok:
  assumes "call_method L name args h = Inr (vs, h')" and "v \<in> set vs"
  shows "\<exists>a. v = LAction a \<and> type a \<noteq> UNDEFINED \<and>
    (type a = EXEC \<or> type a = EXEC_RAW \<longrightarrow>
       exec a \<noteq> [] \<and> length (exec a) \<le> 32 \<and> length (env a) \<le> 32) \<and>
    (timeout a = -1 \<or> (\<exists>q. 0 < q \<and> q \<le> 3600 \<and> timeout a = duration_cast L q))"
  using method_action [OF assms(1)] assms(2)
  by (auto simp: action_ok_def IsDefined_def exec_ok_def timeout_ok_def MAX_EXEC_def MAX_ENV_def)

theorem method_actions_ok_witness:
  "\<exists>a. LAction \<lparr>type = EXEC, connect = [], exec = [''/bin/x'', ''y''], env = [], timeout = -1\<rparr> = LAction a \<and>
    type a \<noteq> UNDEFINED \<and>
    (type a = EXEC \<or> type a = EXEC_RAW \<longrightarrow>
       exec a \<noteq> [] \<and> length (exec a) \<le> 32 \<and> length (env a) \<le> 32) \<and>
    (timeout a = -1 \<or> (\<exists>q. 0 < q \<and> q \<le> 3600 \<and> timeout a = duration_cast ref_libs q))"
proof (rule method_actions_ok)
  show "call_method ref_libs ''exec'' [LMail 0, LString ''/bin/x'', LString ''y''] Map.empty =
      Inr ([LAction \<lparr>type = EXEC, connect = [], exec = [''/bin/x'', ''y''], env = [], timeout = -1\<rparr>],
        Map.empty)"
    by (simp add: call_method_def NewExecAction_def CollectExec_def arg_def CheckStringView_def
        MAX_EXEC_def NewLuaAction_def new_action_def upt_rec)
qed simp

end
