(* ===== verification/Listener.thy ===== *)
theory Listener
  imports Action
begin

text \<open>
  \<open>src/Listener.hxx\<close>: a listening socket with what it passes to the connections it accepts, the
  limit on the size of a request and the handler, a Lua function.
\<close>

record listener =
  listener_fd :: int
  listener_max_size :: size64
  listener_handler :: lua_value

text \<open>The limits that \<open>qmqp_listen()\<close> lets pass.\<close>

definition size_ok :: "listener \<Rightarrow> bool" where
  "size_ok l \<longleftrightarrow> 1024 \<le> unat (listener_max_size l) \<and> unat (listener_max_size l) \<le> 1024 * 1024 * 1024"

end
