(* ===== verification/Connection.thy ===== *)
theory Connection
  imports LMail RawExecRelay Listener
begin

text \<open>
  \<open>src/Connection.cxx\<close>: one client of the QMQP server. A connection receives one mail,
  lets the Lua handler decide about it, starts the relay the action asks for and sends one
  response; then it deletes itself. Every callback is a function from the connection to the
  connection or a crash (a failed assertion, \<open>std::unreachable()\<close>, an access to a dead
  object). What the callback asks of its environment (the clock, whether the response can
  be sent, the answers of the operating system) is a parameter.
\<close>

section \<open>The relay operation of a connection\<close>

text \<open>A \<open>DisposablePointer\<close> to one of the three classes, driven by the events of its class.\<close>

datatype relay = Remote RemoteRelay | Exec ExecRelay | RawExec RawExecRelay

datatype relay_event = RemoteEvent remote_event | ExecEvent exec_event | RawEvent raw_event

fun map_relay :: "('r \<Rightarrow> relay) \<Rightarrow> ('a, 'r) outcome \<Rightarrow> ('a, relay) outcome" where
  "map_relay f (Running a r) = Running a (f r)"
| "map_relay f (Finished a r c) = Finished a (f r) c"
| "map_relay f (Crashed x) = Crashed x"

fun relay_step :: "relay_event \<Rightarrow> relay \<Rightarrow> (unit, relay) outcome" where
  "relay_step (RemoteEvent e) (Remote r) = map_relay Remote (remote_step e r)"
| "relay_step (ExecEvent e) (Exec r) = map_relay Exec (exec_step e r)"
| "relay_step (RawEvent e) (RawExec r) = map_relay RawExec (raw_step e r)"
| "relay_step _ r = Running () r"

fun relay_enabled :: "relay \<Rightarrow> relay_event \<Rightarrow> bool" where
  "relay_enabled (Remote r) (RemoteEvent e) = remote_enabled r e"
| "relay_enabled (Exec r) (ExecEvent e) = exec_enabled r e"
| "relay_enabled (RawExec r) (RawEvent e) = raw_enabled r e"
| "relay_enabled _ _ = False"

fun relay_hazard :: "relay_event \<Rightarrow> bool" where
  "relay_hazard (RawEvent e) = raw_hazard e"
| "relay_hazard _ = False"

fun relay_inv :: "relay \<Rightarrow> bool" where
  "relay_inv (Remote r) = remote_inv r"
| "relay_inv (Exec r) = exec_inv r"
| "relay_inv (RawExec r) = raw_inv r"

text \<open>The virtual destructor: whether a child process is sent \<open>SIGTERM\<close>.\<close>

fun relay_destroy :: "relay \<Rightarrow> bool" where
  "relay_destroy (Remote r) = False"
| "relay_destroy (Exec r) = ExecRelay_destroy r"
| "relay_destroy (RawExec r) = RawExecRelay_destroy r"

lemma map_relay_eqs:
  "map_relay f out = Running u x \<longleftrightarrow> (\<exists>r. out = Running u r \<and> x = f r)"
  "map_relay f out = Finished u x c \<longleftrightarrow> (\<exists>r. out = Finished u r c \<and> x = f r)"
  "map_relay f out = Crashed k \<longleftrightarrow> out = Crashed k"
  by (cases out; auto)+

interpretation any_relay: relay_operation relay_step relay_enabled relay_hazard relay_inv
proof
  fix r e u r' c x
  assume "relay_inv r" and "relay_enabled r e"
  then show "relay_inv r'" if "relay_step e r = Running u r'"
    using that by (cases r; cases e)
      (auto simp: map_relay_eqs dest: remote.step_inv exec.step_inv raw.step_inv)
  show "call_ok c" if "relay_step e r = Finished u r' c"
    using that \<open>relay_inv r\<close> \<open>relay_enabled r e\<close> by (cases r; cases e)
      (auto simp: map_relay_eqs dest: remote.step_call exec.step_call raw.step_call)
  show "relay_step e r \<noteq> Crashed x" if "\<not> relay_hazard e"
    using that \<open>relay_inv r\<close> \<open>relay_enabled r e\<close> by (cases r; cases e)
      (auto simp: map_relay_eqs dest: remote.step_safe exec.step_safe raw.step_safe)
qed

section \<open>The state of a connection\<close>

datatype conn_state = INIT | RECEIVED | LUA | NOT_RELAYING | RELAYING | END

text \<open>The enumerators are ordered by their declaration; \<open>Log()\<close> compares them.\<close>

instantiation conn_state :: linorder
begin

primrec conn_rank :: "conn_state \<Rightarrow> nat" where
  "conn_rank INIT = 0"
| "conn_rank RECEIVED = 1"
| "conn_rank LUA = 2"
| "conn_rank NOT_RELAYING = 3"
| "conn_rank RELAYING = 4"
| "conn_rank END = 5"

definition less_eq_conn_state :: "conn_state \<Rightarrow> conn_state \<Rightarrow> bool" where
  "less_eq_conn_state a b \<longleftrightarrow> conn_rank a \<le> conn_rank b"

definition less_conn_state :: "conn_state \<Rightarrow> conn_state \<Rightarrow> bool" where
  "less_conn_state a b \<longleftrightarrow> conn_rank a < conn_rank b"

instance
proof
  fix a b c :: conn_state
  show "a = b" if "a \<le> b" "b \<le> a"
    using that by (cases a; cases b; simp add: less_eq_conn_state_def)
qed (auto simp: less_eq_conn_state_def less_conn_state_def)

end

text \<open>\<open>mail_ptr\<close> is the cell of the mail object in the Lua heap; \<open>lua_running\<close> tells whether
  the coroutine still has to report its end; \<open>lua_actions\<close> are the action objects that
  exist in the Lua state; \<open>auto_close_list\<close> are the objects to be closed with the
  connection. The last four fields record what the connection has done: deleted itself,
  passed responses to \<open>SendResponse()\<close>, sent log datagrams, terminated children.\<close>

record connection =
  state :: conn_state
  max_size :: size64
  start_time :: int
  conn_peer :: peer_auth
  handler :: lua_value
  logger_domain :: string
  lua_heap :: lua_heap
  lua_actions :: "Action list"
  lua_running :: bool
  auto_close_list :: "nat list"
  mail_ptr :: "nat option"
  relay_operation :: "relay option"
  relay_timeout :: "int option"
  destroyed :: bool
  responses :: "string list"
  datagrams :: "log_datagram list"
  killed :: nat

text \<open>The name under which a connection logs.\<close>

definition MakeLoggerDomain :: "libs \<Rightarrow> peer_auth \<Rightarrow> string" where
  "MakeLoggerDomain L p =
     (if \<not> have_cred p then ''connection''
      else fmt_format L ''pid={} uid={}'' [FInt (sint (pid p)), FInt (uint (uid p))])"

text \<open>The listener passes its limit, for the netstring server, and its handler.\<close>

definition connection_new ::
  "libs \<Rightarrow> listener \<Rightarrow> int \<Rightarrow> peer_auth \<Rightarrow> lua_heap \<Rightarrow> Action list \<Rightarrow> connection" where
  "connection_new L l t p h as = \<lparr>state = INIT, max_size = listener_max_size l, start_time = t,
     conn_peer = p, handler = listener_handler l, logger_domain = MakeLoggerDomain L p, lua_heap = h,
     lua_actions = as, lua_running = False, auto_close_list = [], mail_ptr = None,
     relay_operation = None, relay_timeout = None, destroyed = False, responses = [],
     datagrams = [], killed = 0\<rparr>"

text \<open>What the callbacks ask of the environment: is there a log socket, can the response be
  sent at once, the two clocks, the answers to \<open>Start()\<close>, and the cell for a new object.\<close>

record conn_env =
  log_defined :: bool
  send_ok :: bool
  system_now :: int
  steady_now :: int
  os :: spawn_env
  pipe_write :: write_result
  fresh_cell :: nat

type_synonym conn_result = "crash + connection"

section \<open>Logging\<close>

definition TotalSize :: "string list \<Rightarrow> size64" where
  "TotalSize xs = foldl (\<lambda>result i. result + of_nat (length i)) 0 xs"

text \<open>The loop over the recipients with its flag \<open>comma\<close>.\<close>

primrec log_recipients :: "libs \<Rightarrow> bool \<Rightarrow> string \<Rightarrow> string list \<Rightarrow> string" where
  "log_recipients L comma message_buffer [] = message_buffer"
| "log_recipients L comma message_buffer (i # is) =
     log_recipients L True
       ((if comma then message_buffer @ '','' else message_buffer) @
        fmt_format L ''<{}>'' [FStr i]) is"

definition log_message :: "libs \<Rightarrow> IncomingMail \<Rightarrow> string \<Rightarrow> string" where
  "log_message L m msg =
     (let message_buffer = fmt_format L ''from=<{}> to='' [FStr (sender m)];
          message_buffer = log_recipients L False message_buffer (recipients m)
      in if msg \<noteq> [] then message_buffer @ '' '' @ msg else message_buffer)"

definition log_datagram_of :: "libs \<Rightarrow> conn_env \<Rightarrow> connection \<Rightarrow> IncomingMail \<Rightarrow> string \<Rightarrow> log_datagram" where
  "log_datagram_of L E c m msg =
     (let added_header_size = TotalSize (headers m);
          traffic_received = of_nat (length (array_bytes (buffer m)));
          traffic_sent = (if RELAYING \<le> state c then traffic_received + added_header_size else 0)
      in \<lparr>dg_timestamp = FromSystem L (system_now E),
          dg_site = (if account m = [] then None else Some (c_str (account m))),
          dg_message = log_message L m msg,
          dg_type = SUBMISSION L,
          dg_traffic_received = traffic_received,
          dg_traffic_sent = traffic_sent,
          dg_length = of_nat (length (message m)) + added_header_size,
          dg_duration = to_log_duration L (steady_now E - start_time c)\<rparr>)"

text \<open>An exception of \<open>Net::Log::Send()\<close> is printed and forgotten.\<close>

definition Log :: "libs \<Rightarrow> conn_env \<Rightarrow> string \<Rightarrow> connection \<Rightarrow> conn_result" where
  "Log L E msg c =
     (if state c = END then Inl AssertionFailed
      else case mail_ptr c of
        None \<Rightarrow> Inl AssertionFailed
      | Some k \<Rightarrow>
          if \<not> log_defined E then Inr c
          else case lua_heap c k of
            None \<Rightarrow> Inl UseAfterFree
          | Some m \<Rightarrow>
              Inr (c\<lparr>datagrams := datagrams c @
                  [TruncateMessage L 1024 (log_datagram_of L E c m msg)],
                state := END, mail_ptr := None\<rparr>))"

section \<open>The end of a connection\<close>

definition log_if_mail :: "libs \<Rightarrow> conn_env \<Rightarrow> string \<Rightarrow> connection \<Rightarrow> conn_result" where
  "log_if_mail L E msg c = (if mail_ptr c \<noteq> None then Log L E msg c else Inr c)"

text \<open>\<open>delete this\<close>: the body of the destructor, then the members in the reverse order of
  their declaration: the timer, the relay operation, the list of objects to be closed.\<close>

definition delete_connection :: "libs \<Rightarrow> conn_env \<Rightarrow> connection \<Rightarrow> conn_result" where
  "delete_connection L E c =
     and_then (log_if_mail L E ''canceled'' c) (\<lambda>c.
     let c = c\<lparr>lua_running := False\<rparr>;
         c = c\<lparr>relay_timeout := None\<rparr>;
         c = c\<lparr>killed := killed c +
               (case relay_operation c of Some r \<Rightarrow> if relay_destroy r then 1 else 0 | None \<Rightarrow> 0),
             relay_operation := None\<rparr>;
         c = c\<lparr>lua_heap := foldr close_mail (auto_close_list c) (lua_heap c)\<rparr>
     in Inr (c\<lparr>destroyed := True\<rparr>))"

definition OnError :: "libs \<Rightarrow> conn_env \<Rightarrow> connection \<Rightarrow> conn_result" where
  "OnError L E c =
     and_then (log_if_mail L E ''client error'' c) (delete_connection L E)"

definition OnDisconnect :: "libs \<Rightarrow> conn_env \<Rightarrow> connection \<Rightarrow> conn_result" where
  "OnDisconnect L E c = delete_connection L E c"

text \<open>\<open>SendResponse()\<close> returns true when the response has been sent; otherwise it has already
  reported the failure to \<open>OnError()\<close>, which deletes the connection.\<close>

definition Finish :: "libs \<Rightarrow> conn_env \<Rightarrow> string \<Rightarrow> connection \<Rightarrow> conn_result" where
  "Finish L E response c =
     (if state c = INIT \<or> state c = END then Inl AssertionFailed
      else if response = [] then Inl AssertionFailed
      else
        and_then (log_if_mail L E (tl response) c) (\<lambda>c.
        let c = c\<lparr>responses := responses c @ [response]\<rparr> in
        if send_ok E then delete_connection L E c else OnError L E c))"

definition OnRelayTimeout :: "libs \<Rightarrow> conn_env \<Rightarrow> connection \<Rightarrow> conn_result" where
  "OnRelayTimeout L E c = Finish L E ''Ztimeout'' c"

definition OnRelayResponse :: "libs \<Rightarrow> conn_env \<Rightarrow> string \<Rightarrow> connection \<Rightarrow> conn_result" where
  "OnRelayResponse L E response c = Finish L E response c"

definition OnRelayError :: "libs \<Rightarrow> conn_env \<Rightarrow> string \<Rightarrow> connection \<Rightarrow> conn_result" where
  "OnRelayError L E response c = Finish L E response c"

section \<open>Receiving the mail\<close>

definition OnRequest :: "libs \<Rightarrow> conn_env \<Rightarrow> string option \<Rightarrow> connection \<Rightarrow> conn_result" where
  "OnRequest L E payload c =
     (if state c \<noteq> INIT then Inl AssertionFailed
      else
        let c = c\<lparr>state := RECEIVED\<rparr> in
        case MutableMail_Parse L (new_mutable_mail payload) of
          (MALFORMED, _) \<Rightarrow> Finish L E ''Dmalformed input'' c
        | (BAD_ADDRESS, _) \<Rightarrow> Finish L E ''Dbad address'' c
        | (TOO_MANY_RECIPIENTS, _) \<Rightarrow> Finish L E ''Dtoo many recipients'' c
        | (SUCCESS, mail) \<Rightarrow>
            let mail = mail\<lparr>message := StripLeft L (message mail)\<rparr>;
                k = fresh_cell E;
                c = c\<lparr>lua_heap := NewLuaMail k mail (conn_peer c) (lua_heap c),
                  auto_close_list := auto_close_list c @ [k], mail_ptr := Some k\<rparr>;
                c = c\<lparr>state := LUA\<rparr>
            in Inr (c\<lparr>lua_running := True\<rparr>))"

section \<open>Carrying out the action\<close>

definition AssembleHeaders :: "libs \<Rightarrow> peer_auth \<Rightarrow> IncomingMail \<Rightarrow> string list" where
  "AssembleHeaders L p mail =
     headers mail @
     (if have_cred p
      then [fmt_format L (''Received: from PID={} UID={} with QMQP'' @ CRLF)
              [FInt (sint (pid p)), FInt (uint (uid p))]]
      else [])"

definition schedule_timeout :: "Action \<Rightarrow> connection \<Rightarrow> connection" where
  "schedule_timeout action c =
     (if 0 < timeout action then c\<lparr>relay_timeout := Some (timeout action)\<rparr> else c)"

text \<open>The pointer is stored before \<open>Start()\<close> runs, so a call to the handler from within
  \<open>Start()\<close> destroys the relay together with the connection.\<close>

definition finish_start ::
  "libs \<Rightarrow> conn_env \<Rightarrow> ('r \<Rightarrow> relay) \<Rightarrow> ('a, 'r) outcome \<Rightarrow> connection \<Rightarrow> conn_result" where
  "finish_start L E f out c =
     (case out of
        Running _ r \<Rightarrow> Inr (c\<lparr>relay_operation := Some (f r)\<rparr>)
      | Finished _ r call \<Rightarrow>
          call_handler (OnRelayResponse L E) (OnRelayError L E) call
            (c\<lparr>relay_operation := Some (f r)\<rparr>)
      | Crashed x \<Rightarrow> Inl x)"

definition DoConnect :: "libs \<Rightarrow> conn_env \<Rightarrow> Action \<Rightarrow> IncomingMail \<Rightarrow> connection \<Rightarrow> conn_result" where
  "DoConnect L E action mail c =
     (let c = schedule_timeout action c;
          relay = RemoteRelay_new L mail (AssembleHeaders L (conn_peer c) mail)
      in finish_start L E Remote (Running () (RemoteRelay_Start (connect action) relay)) c)"

definition DoExec :: "libs \<Rightarrow> conn_env \<Rightarrow> Action \<Rightarrow> IncomingMail \<Rightarrow> connection \<Rightarrow> conn_result" where
  "DoExec L E action mail c =
     (let c = schedule_timeout action c;
          relay = ExecRelay_new L mail (AssembleHeaders L (conn_peer c) mail)
      in finish_start L E Exec (ExecRelay_Start action (os E) relay) c)"

definition DoRawExec :: "libs \<Rightarrow> conn_env \<Rightarrow> Action \<Rightarrow> IncomingMail \<Rightarrow> connection \<Rightarrow> conn_result" where
  "DoRawExec L E action mail c =
     (let c = schedule_timeout action c;
          relay = RawExecRelay_new mail (AssembleHeaders L (conn_peer c) mail)
      in finish_start L E RawExec (RawExecRelay_Start action (os E) (pipe_write E) relay) c)"

definition Do :: "libs \<Rightarrow> conn_env \<Rightarrow> Action \<Rightarrow> IncomingMail \<Rightarrow> connection \<Rightarrow> conn_result" where
  "Do L E action mail c =
     (case type action of
        UNDEFINED \<Rightarrow> Inl Unreachable
      | DISCARD \<Rightarrow> Finish L E ''Kdiscarded'' (c\<lparr>state := NOT_RELAYING\<rparr>)
      | REJECT \<Rightarrow> Finish L E ''Drejected'' (c\<lparr>state := NOT_RELAYING\<rparr>)
      | CONNECT \<Rightarrow> DoConnect L E action mail (c\<lparr>state := RELAYING\<rparr>)
      | EXEC \<Rightarrow> DoExec L E action mail (c\<lparr>state := RELAYING\<rparr>)
      | EXEC_RAW \<Rightarrow> DoRawExec L E action mail (c\<lparr>state := RELAYING\<rparr>))"

section \<open>The end of the Lua handler\<close>

definition OnLuaError :: "libs \<Rightarrow> conn_env \<Rightarrow> connection \<Rightarrow> conn_result" where
  "OnLuaError L E c =
     (if state c \<noteq> LUA then Inl AssertionFailed
      else if mail_ptr c = None then Inl AssertionFailed
      else Finish L E ''Zscript failed'' c)"

definition OnLuaFinished :: "libs \<Rightarrow> conn_env \<Rightarrow> lua_value \<Rightarrow> connection \<Rightarrow> conn_result" where
  "OnLuaFinished L E v c =
     (if state c \<noteq> LUA then Inl AssertionFailed
      else case mail_ptr c of
        None \<Rightarrow> Inl AssertionFailed
      | Some k \<Rightarrow>
          (case CheckLuaAction v of
             None \<Rightarrow> OnLuaError L E c
           | Some action \<Rightarrow>
               (case lua_heap c k of
                  None \<Rightarrow> Inl UseAfterFree
                | Some mail \<Rightarrow> Do L E action mail c)))"

section \<open>Events\<close>

datatype conn_event =
    EvRequest "string option"
  | EvLua lua_call
  | EvLuaFinished lua_value
  | EvLuaError
  | EvRelay relay_event
  | EvTimeout
  | EvError
  | EvDisconnect

text \<open>A script runs: the heap changes, and a new action object may exist afterwards. Only the
  methods create action objects.\<close>

fun new_actions :: "lua_call \<Rightarrow> lua_result \<Rightarrow> Action list" where
  "new_actions (CallMethod name args) (Inr (vs, h)) = List.map_filter CheckLuaAction vs"
| "new_actions _ _ = []"

definition run_lua_call :: "libs \<Rightarrow> lua_call \<Rightarrow> connection \<Rightarrow> connection" where
  "run_lua_call L call c =
     (let r = lua_exec L call (lua_heap c)
      in c\<lparr>lua_heap := heap_after r (lua_heap c),
           lua_actions := lua_actions c @ new_actions call r\<rparr>)"

definition OnRelayEvent :: "libs \<Rightarrow> conn_env \<Rightarrow> relay_event \<Rightarrow> connection \<Rightarrow> conn_result" where
  "OnRelayEvent L E e c =
     (case relay_operation c of
        None \<Rightarrow> Inl UseAfterFree
      | Some r \<Rightarrow>
          (case relay_step e r of
             Running _ r' \<Rightarrow> Inr (c\<lparr>relay_operation := Some r'\<rparr>)
           | Finished _ r' call \<Rightarrow>
               call_handler (OnRelayResponse L E) (OnRelayError L E) call
                 (c\<lparr>relay_operation := Some r'\<rparr>)
           | Crashed x \<Rightarrow> Inl x))"

fun conn_step :: "libs \<Rightarrow> conn_env \<Rightarrow> conn_event \<Rightarrow> connection \<Rightarrow> conn_result" where
  "conn_step L E (EvRequest payload) c = OnRequest L E payload c"
| "conn_step L E (EvLua call) c = Inr (run_lua_call L call c)"
| "conn_step L E (EvLuaFinished v) c = OnLuaFinished L E v (c\<lparr>lua_running := False\<rparr>)"
| "conn_step L E EvLuaError c = OnLuaError L E (c\<lparr>lua_running := False\<rparr>)"
| "conn_step L E (EvRelay e) c = OnRelayEvent L E e c"
| "conn_step L E EvTimeout c = OnRelayTimeout L E (c\<lparr>relay_timeout := None\<rparr>)"
| "conn_step L E EvError c = OnError L E c"
| "conn_step L E EvDisconnect c = OnDisconnect L E c"

text \<open>When an event can occur. The server passes on one request; the coroutine reports its end
  once, with an action object only if it exists in the Lua state; the relay's and the
  timer's callbacks come while they are active; nothing reaches a deleted connection.\<close>

fun conn_enabled :: "conn_env \<Rightarrow> connection \<Rightarrow> conn_event \<Rightarrow> bool" where
  "conn_enabled E c (EvRequest payload) =
     (\<not> destroyed c \<and> state c = INIT \<and> lua_heap c (fresh_cell E) = None \<and>
      int (length (array_bytes payload)) \<le> uint (max_size c))"
| "conn_enabled E c (EvLua _) = (\<not> destroyed c)"
| "conn_enabled E c (EvLuaFinished v) =
     (\<not> destroyed c \<and> lua_running c \<and>
      (case v of LAction a \<Rightarrow> a \<in> set (lua_actions c) | _ \<Rightarrow> True))"
| "conn_enabled E c EvLuaError = (\<not> destroyed c \<and> lua_running c)"
| "conn_enabled E c (EvRelay e) =
     (\<not> destroyed c \<and> (case relay_operation c of Some r \<Rightarrow> relay_enabled r e | None \<Rightarrow> False))"
| "conn_enabled E c EvTimeout = (\<not> destroyed c \<and> relay_timeout c \<noteq> None)"
| "conn_enabled E c EvError = (\<not> destroyed c)"
| "conn_enabled E c EvDisconnect = (\<not> destroyed c)"

fun conn_hazard :: "conn_event \<Rightarrow> bool" where
  "conn_hazard (EvRelay e) = relay_hazard e"
| "conn_hazard _ = False"

end
