(* ===== verification/ConnectionLife.thy ===== *)
theory ConnectionLife
  imports Connection
begin

text \<open>
  The life of a connection: its invariant, the one way it ends, and the reachable states.
  \<open>ended\<close> is the connection after any of its ends; every callback either keeps the
  invariant of a living connection or yields such a state.
\<close>

section \<open>The end of a connection\<close>

text \<open>The datagram that is sent for a message text, if there is one.\<close>

definition log_entry :: "libs \<Rightarrow> conn_env \<Rightarrow> string \<Rightarrow> connection \<Rightarrow> log_datagram list" where
  "log_entry L E msg c =
     (if \<not> log_defined E then []
      else case mail_ptr c of
        None \<Rightarrow> []
      | Some k \<Rightarrow>
          (case lua_heap c k of
             None \<Rightarrow> []
           | Some m \<Rightarrow> [TruncateMessage L 1024 (log_datagram_of L E c m msg)]))"

definition relay_kills :: "connection \<Rightarrow> nat" where
  "relay_kills c =
     (case relay_operation c of Some r \<Rightarrow> if relay_destroy r then 1 else 0 | None \<Rightarrow> 0)"

definition logged :: "conn_env \<Rightarrow> connection \<Rightarrow> bool" where
  "logged E c \<longleftrightarrow> log_defined E \<and> mail_ptr c \<noteq> None"

definition ended :: "libs \<Rightarrow> conn_env \<Rightarrow> string \<Rightarrow> string list \<Rightarrow> connection \<Rightarrow> connection" where
  "ended L E msg rs c = c\<lparr>
     datagrams := datagrams c @ log_entry L E msg c,
     state := if logged E c then END else state c,
     mail_ptr := if logged E c then None else mail_ptr c,
     responses := responses c @ rs,
     lua_running := False, relay_timeout := None,
     killed := killed c + relay_kills c, relay_operation := None,
     lua_heap := foldr close_mail (auto_close_list c) (lua_heap c),
     destroyed := True\<rparr>"

text \<open>The connection may end: it has not ended before, and its mail exists.\<close>

definition may_end :: "connection \<Rightarrow> bool" where
  "may_end c \<longleftrightarrow> \<not> destroyed c \<and> state c \<noteq> END \<and>
     (\<forall>k. mail_ptr c = Some k \<longrightarrow> lua_heap c k \<noteq> None)"

definition may_answer :: "connection \<Rightarrow> bool" where
  "may_answer c \<longleftrightarrow> may_end c \<and> state c \<noteq> INIT"

definition log_effect :: "libs \<Rightarrow> conn_env \<Rightarrow> string \<Rightarrow> connection \<Rightarrow> connection" where
  "log_effect L E msg c =
     (if logged E c
      then c\<lparr>datagrams := datagrams c @ log_entry L E msg c, state := END, mail_ptr := None\<rparr>
      else c)"

lemma log_if_mail_eq:
  "may_end c \<Longrightarrow> log_if_mail L E msg c = Inr (log_effect L E msg c)"
  by (auto simp: may_end_def log_if_mail_def Log_def log_effect_def logged_def log_entry_def)

lemma may_end_state: "may_end c \<Longrightarrow> state c \<noteq> END"
  by (simp add: may_end_def)

lemma log_effect_responses: "responses (log_effect L E msg c) = responses c"
  by (simp add: log_effect_def)

text \<open>Once logged, or without a log socket, nothing more is logged.\<close>

lemma log_again:
  "may_end c \<Longrightarrow> log_if_mail L E msg' (log_effect L E msg c\<lparr>responses := rs\<rparr>) =
    Inr (log_effect L E msg c\<lparr>responses := rs\<rparr>)"
  "may_end c \<Longrightarrow> log_if_mail L E msg' (log_effect L E msg c) = Inr (log_effect L E msg c)"
  by (auto simp: may_end_def log_if_mail_def Log_def log_effect_def logged_def)

lemma ended_eq:
  "log_effect L E msg c\<lparr>responses := responses c @ rs, lua_running := False, relay_timeout := None,
     killed := killed c + relay_kills c, relay_operation := None,
     lua_heap := foldr close_mail (auto_close_list c) (lua_heap c), destroyed := True\<rparr> =
   ended L E msg rs c"
  by (cases c) (auto simp: ended_def log_effect_def logged_def log_entry_def)

lemma OnDisconnect_eq:
  "may_end c \<Longrightarrow> OnDisconnect L E c = Inr (ended L E ''canceled'' [] c)"
  unfolding ended_eq [symmetric]
  by (auto simp: OnDisconnect_def delete_connection_def log_if_mail_eq Let_def relay_kills_def
      log_effect_def)

lemma OnError_eq:
  "may_end c \<Longrightarrow> OnError L E c = Inr (ended L E ''client error'' [] c)"
  unfolding ended_eq [symmetric]
  by (simp add: OnError_def delete_connection_def log_if_mail_eq log_again Let_def)
    (simp add: relay_kills_def log_effect_def)

text \<open>Whether or not the response can be sent, the connection is gone afterwards, and what is
  logged is the response.\<close>

lemma Finish_eq:
  "may_answer c \<Longrightarrow> s \<noteq> [] \<Longrightarrow> Finish L E s c = Inr (ended L E (tl s) [s] c)"
  unfolding ended_eq [symmetric]
  by (simp add: Finish_def OnError_def delete_connection_def may_answer_def may_end_state
      log_if_mail_eq log_again log_effect_responses Let_def)
    (simp add: relay_kills_def log_effect_def)

lemma ended_sel [simp]:
  "destroyed (ended L E msg rs c)"
  "responses (ended L E msg rs c) = responses c @ rs"
  "relay_operation (ended L E msg rs c) = None"
  "relay_timeout (ended L E msg rs c) = None"
  "\<not> lua_running (ended L E msg rs c)"
  "killed (ended L E msg rs c) = killed c + relay_kills c"
  "lua_heap (ended L E msg rs c) = foldr close_mail (auto_close_list c) (lua_heap c)"
  "auto_close_list (ended L E msg rs c) = auto_close_list c"
  "lua_actions (ended L E msg rs c) = lua_actions c"
  "conn_peer (ended L E msg rs c) = conn_peer c"
  "max_size (ended L E msg rs c) = max_size c"
  "datagrams (ended L E msg rs c) = datagrams c @ log_entry L E msg c"
  by (simp_all add: ended_def)

text \<open>A connection is the handler of its relay: both methods end it with the response sent.\<close>

interpretation conn_handler: relay_handler "OnRelayResponse L E" "OnRelayError L E"
    may_answer destroyed responses for L E
  by unfold_locales (simp_all add: OnRelayResponse_def OnRelayError_def Finish_eq)

lemma call_handler_eq:
  "may_answer c \<Longrightarrow> response_of call \<noteq> [] \<Longrightarrow>
    call_handler (OnRelayResponse L E) (OnRelayError L E) call c =
    Inr (ended L E (tl (response_of call)) [response_of call] c)"
  by (cases call) (simp_all add: OnRelayResponse_def OnRelayError_def Finish_eq)

lemma log_entry_length: "length (log_entry L E msg c) \<le> 1"
  by (simp add: log_entry_def split: option.split)

section \<open>Closing the mails\<close>

definition stale_in :: "lua_heap \<Rightarrow> nat \<Rightarrow> bool" where
  "stale_in h k \<longleftrightarrow> (\<exists>m. h k = Some m \<and> IsStale m)"

definition live_in :: "lua_heap \<Rightarrow> nat \<Rightarrow> bool" where
  "live_in h k \<longleftrightarrow> (\<exists>m. h k = Some m \<and> \<not> IsStale m)"

lemma IsStale_Close [simp]: "IsStale (Close m)"
  by (simp add: Close_def Free_def IsStale_def)

lemma heap_ok_close [wf_intros]: "heap_ok L h \<Longrightarrow> heap_ok L (foldr close_mail ks h)"
  by (induction ks) (auto simp: close_mail_def intro!: wf_intros dest: heap_okD split: option.splits)

lemma close_mail_dom [simp]: "dom (close_mail k h) = dom h"
  by (auto simp: close_mail_def split: option.splits if_splits)

lemma stale_close_mail:
  "h k = Some m \<Longrightarrow> stale_in (close_mail k h) k"
  "stale_in h k \<Longrightarrow> stale_in (close_mail j h) k"
  by (auto simp: stale_in_def close_mail_def split: option.splits)

lemma close_stale:
  "k \<in> set ks \<Longrightarrow> k \<in> dom h \<Longrightarrow> stale_in (foldr close_mail ks h) k"
proof (induction ks)
  case Nil
  then show ?case by simp
next
  case (Cons j ks)
  have "dom (foldr close_mail ks h) = dom h"
    by (induction ks) simp_all
  with Cons.prems(2) obtain m where "foldr close_mail ks h k = Some m"
    by blast
  with Cons show ?case
    by (cases "j = k") (simp_all add: stale_close_mail)
qed

section \<open>The invariant\<close>

text \<open>Between two events a living connection waits for its request, for the Lua handler, or for
  its relay; the states \<open>RECEIVED\<close>, \<open>NOT_RELAYING\<close> and \<open>END\<close> are passed through only. From the
  request on it has exactly one mail, which is live and will be closed with it.\<close>

definition has_mail :: "connection \<Rightarrow> bool" where
  "has_mail c \<longleftrightarrow>
     (\<exists>k. mail_ptr c = Some k \<and> auto_close_list c = [k] \<and> live_in (lua_heap c) k)"

definition waiting :: "connection \<Rightarrow> bool" where
  "waiting c \<longleftrightarrow>
     (case state c of
        INIT \<Rightarrow> mail_ptr c = None \<and> auto_close_list c = [] \<and> \<not> lua_running c \<and>
          relay_operation c = None \<and> relay_timeout c = None
      | LUA \<Rightarrow> has_mail c \<and> lua_running c \<and> relay_operation c = None \<and> relay_timeout c = None
      | RELAYING \<Rightarrow> has_mail c \<and> \<not> lua_running c \<and>
          (\<exists>r. relay_operation c = Some r \<and> relay_inv r)
      | _ \<Rightarrow> False)"

definition world_ok :: "libs \<Rightarrow> connection \<Rightarrow> bool" where
  "world_ok L c \<longleftrightarrow> heap_ok L (lua_heap c) \<and> list_all action_ok (lua_actions c)"

definition alive :: "libs \<Rightarrow> connection \<Rightarrow> bool" where
  "alive L c \<longleftrightarrow> \<not> destroyed c \<and> responses c = [] \<and> datagrams c = [] \<and> killed c = 0 \<and>
     world_ok L c \<and> waiting c"

definition dead :: "libs \<Rightarrow> connection \<Rightarrow> bool" where
  "dead L c \<longleftrightarrow> destroyed c \<and> length (responses c) \<le> 1 \<and> list_all good_response (responses c) \<and>
     length (datagrams c) \<le> 1 \<and> killed c \<le> 1 \<and> world_ok L c \<and>
     relay_operation c = None \<and> relay_timeout c = None \<and> \<not> lua_running c \<and>
     list_all (stale_in (lua_heap c)) (auto_close_list c)"

text \<open>The states from which a callback may end the connection: as a living one, but on the way
  between two of its states.\<close>

definition ending :: "libs \<Rightarrow> connection \<Rightarrow> bool" where
  "ending L c \<longleftrightarrow> \<not> destroyed c \<and> state c \<noteq> END \<and> responses c = [] \<and> datagrams c = [] \<and>
     killed c = 0 \<and> world_ok L c \<and>
     (mail_ptr c = None \<and> auto_close_list c = [] \<or> has_mail c)"

lemma alive_ending: "alive L c \<Longrightarrow> ending L c"
  by (auto simp: alive_def ending_def waiting_def split: conn_state.splits)

lemma ending_may_end: "ending L c \<Longrightarrow> may_end c"
  by (auto simp: ending_def may_end_def has_mail_def live_in_def)

lemma ending_may_answer: "ending L c \<Longrightarrow> state c \<noteq> INIT \<Longrightarrow> may_answer c"
  by (simp add: may_answer_def ending_may_end)

text \<open>Being on the way to the end does not depend on the relay and the timer.\<close>

lemma ending_update [simp]:
  "ending L (c\<lparr>relay_operation := r\<rparr>) = ending L c"
  "ending L (c\<lparr>relay_timeout := t\<rparr>) = ending L c"
  "ending L (c\<lparr>lua_running := b\<rparr>) = ending L c"
  by (simp_all add: ending_def world_ok_def has_mail_def)

lemma ended_dead:
  assumes "ending L c" and "length rs \<le> 1" and "list_all good_response rs"
  shows "dead L (ended L E msg rs c)"
proof -
  have "stale_in (foldr close_mail (auto_close_list c) (lua_heap c)) k"
    if "k \<in> set (auto_close_list c)" for k
    using assms(1) that
    by (intro close_stale) (auto simp: ending_def has_mail_def live_in_def)
  moreover have "relay_kills c \<le> 1"
    by (simp add: relay_kills_def split: option.split)
  ultimately show ?thesis
    using assms log_entry_length
    by (simp add: dead_def ending_def world_ok_def heap_ok_close list_all_iff)
qed

lemma alive_new:
  "heap_ok L h \<Longrightarrow> list_all action_ok as \<Longrightarrow> alive L (connection_new L l t p h as)"
  by (simp add: alive_def connection_new_def world_ok_def waiting_def)

section \<open>How a callback may turn out\<close>

text \<open>After a callback the connection lives on, or it has ended, possibly with one answer.\<close>

definition answers :: "libs \<Rightarrow> conn_env \<Rightarrow> string \<Rightarrow> connection \<Rightarrow> connection \<Rightarrow> bool" where
  "answers L E s c c' \<longleftrightarrow> ending L c \<and> state c \<noteq> INIT \<and> c' = ended L E (tl s) [s] c"

lemma answer:
  "ending L c \<Longrightarrow> state c \<noteq> INIT \<Longrightarrow> s \<noteq> [] \<Longrightarrow>
    \<exists>c'. Finish L E s c = Inr c' \<and> answers L E s c c'"
  by (simp add: Finish_eq ending_may_answer answers_def)

lemma answers_dead: "answers L E s c c' \<Longrightarrow> good_response s \<Longrightarrow> dead L c' \<and> responses c' = [s]"
  by (auto simp: answers_def ended_dead) (simp add: ending_def)

lemma call_answers:
  "ending L c \<Longrightarrow> state c \<noteq> INIT \<Longrightarrow> call_ok call \<Longrightarrow>
    \<exists>c'. call_handler (OnRelayResponse L E) (OnRelayError L E) call c = Inr c' \<and>
      answers L E (response_of call) c c'"
  by (simp add: call_handler_eq ending_may_answer answers_def call_ok_nonempty)

section \<open>Each callback\<close>

text \<open>The request: a mail that parses is handed to the Lua handler, any other is answered.\<close>

definition parse_answer :: "ParseResult \<Rightarrow> string" where
  "parse_answer res = (case res of
     MALFORMED \<Rightarrow> ''Dmalformed input'' | BAD_ADDRESS \<Rightarrow> ''Dbad address''
   | TOO_MANY_RECIPIENTS \<Rightarrow> ''Dtoo many recipients'' | SUCCESS \<Rightarrow> [])"

definition received_mail :: "libs \<Rightarrow> MutableMail \<Rightarrow> MutableMail" where
  "received_mail L mail = mail\<lparr>message := StripLeft L (message mail)\<rparr>"

definition mail_accepted :: "libs \<Rightarrow> conn_env \<Rightarrow> MutableMail \<Rightarrow> connection \<Rightarrow> connection" where
  "mail_accepted L E mail c = c\<lparr>
     lua_heap := NewLuaMail (fresh_cell E) (received_mail L mail) (conn_peer c) (lua_heap c),
     auto_close_list := auto_close_list c @ [fresh_cell E], mail_ptr := Some (fresh_cell E),
     state := LUA, lua_running := True\<rparr>"

lemma OnRequest_success:
  assumes "state c = INIT" and "MutableMail_Parse L (new_mutable_mail payload) = (SUCCESS, mail)"
  shows "OnRequest L E payload c = Inr (mail_accepted L E mail c)"
  using assms by (simp add: OnRequest_def Let_def mail_accepted_def received_mail_def)

lemma OnRequest_failure:
  assumes "state c = INIT" and "MutableMail_Parse L (new_mutable_mail payload) = (res, mail)"
    and "res \<noteq> SUCCESS"
  shows "OnRequest L E payload c = Finish L E (parse_answer res) (c\<lparr>state := RECEIVED\<rparr>)"
  using assms by (cases res) (simp_all add: OnRequest_def Let_def parse_answer_def)

lemma parse_answer_good: "res \<noteq> SUCCESS \<Longrightarrow> good_response (parse_answer res)"
  by (cases res) (simp_all add: parse_answer_def good_defs)

lemma ending_RECEIVED: "alive L c \<Longrightarrow> state c = INIT \<Longrightarrow> ending L (c\<lparr>state := RECEIVED\<rparr>)"
  by (auto simp: alive_def ending_def waiting_def world_ok_def)

lemma received_mail_ok:
  assumes "split_law L" and "parse_integer_law L"
    and "MutableMail_Parse L (new_mutable_mail payload) = (SUCCESS, mail)"
  shows "mail_ok L (NewIncomingMail (received_mail L mail) p)"
proof (rule mail_ok_New)
  have parse: "Parse L (array_bytes payload) (new_mutable_mail payload) = (SUCCESS, mail)"
    using assms(3) by (simp add: MutableMail_Parse_def new_mutable_mail_def)
  have "envelope_ok L mail"
    using Parse_sound [OF assms(1,2) parse] by (simp add: new_mutable_mail_def)
  then show "envelope_ok L (received_mail L mail)"
    by (simp add: envelope_ok_def received_mail_def)
  show "headers (received_mail L mail) = []"
    using Parse_frame_mutable(3) [OF parse] by (simp add: received_mail_def new_mutable_mail_def)
qed

lemma alive_LUA:
  assumes "split_law L" and "parse_integer_law L" and "alive L c" and "state c = INIT"
    and "MutableMail_Parse L (new_mutable_mail payload) = (SUCCESS, mail)"
  shows "alive L (mail_accepted L E mail c)"
  using assms received_mail_ok [OF assms(1,2,5)]
  by (auto simp: alive_def waiting_def world_ok_def mail_accepted_def has_mail_def live_in_def
      NewLuaMail_def NewIncomingMail_fields intro!: wf_intros)

text \<open>A script: the mail of the connection stays what it is, except for its stale state, which
  no script can change.\<close>

lemma run_lua_call_fields [simp]:
  "state (run_lua_call L call c) = state c"
  "mail_ptr (run_lua_call L call c) = mail_ptr c"
  "auto_close_list (run_lua_call L call c) = auto_close_list c"
  "lua_running (run_lua_call L call c) = lua_running c"
  "relay_operation (run_lua_call L call c) = relay_operation c"
  "relay_timeout (run_lua_call L call c) = relay_timeout c"
  "responses (run_lua_call L call c) = responses c"
  "datagrams (run_lua_call L call c) = datagrams c"
  "killed (run_lua_call L call c) = killed c"
  "destroyed (run_lua_call L call c) = destroyed c"
  "conn_peer (run_lua_call L call c) = conn_peer c"
  "lua_heap (run_lua_call L call c) = heap_after (lua_exec L call (lua_heap c)) (lua_heap c)"
  by (simp_all add: run_lua_call_def Let_def)

lemma CheckLuaAction_eq: "CheckLuaAction v = Some a \<longleftrightarrow> v = LAction a"
  by (simp add: CheckLuaAction_def split: lua_value.split)

lemma new_actions_ok: "list_all action_ok (new_actions call (lua_exec L call h))"
proof (cases "(call, lua_exec L call h)" rule: new_actions.cases)
  case (1 name args vs h')
  then have "call_method L name args h = Inr (vs, h')"
    by auto
  from method_action [OF this] 1 show ?thesis
    by (auto simp: list_all_iff List.map_filter_def CheckLuaAction_def)
qed auto

lemma live_in_script:
  assumes "live_in h k"
  shows "live_in (heap_after (lua_exec L call h) h) k"
proof -
  from assms obtain m where m: "h k = Some m" "\<not> IsStale m"
    by (auto simp: live_in_def)
  with lua_exec_after(3) [where h = h and k = k and m = m and L = L and c = call]
  show ?thesis
    by (auto simp: live_in_def same_content_def IsStale_def)
qed

lemma world_ok_script:
  "check_chars_law L \<Longrightarrow> fmt_law L \<Longrightarrow> world_ok L c \<Longrightarrow> world_ok L (run_lua_call L call c)"
  by (simp add: world_ok_def lua_exec_after)
    (simp add: run_lua_call_def Let_def new_actions_ok)

lemma has_mail_script: "has_mail c \<Longrightarrow> has_mail (run_lua_call L call c)"
  by (auto simp: has_mail_def live_in_script)

lemma alive_script:
  assumes "check_chars_law L" and "fmt_law L" and "alive L c"
  shows "alive L (run_lua_call L call c)"
  using assms world_ok_script [OF assms(1,2)]
  by (auto simp: alive_def waiting_def has_mail_script split: conn_state.splits)

text \<open>The action: a discarded or rejected mail is answered at once; for the others a relay is
  started, and the connection waits for it unless the start has failed.\<close>

definition relay_started :: "libs \<Rightarrow> conn_env \<Rightarrow> IncomingMail \<Rightarrow> string list \<Rightarrow> Action \<Rightarrow> relay \<Rightarrow> bool" where
  "relay_started L E mail hs a r \<longleftrightarrow>
     (case r of
        Remote q \<Rightarrow> type a = CONNECT \<and> q = RemoteRelay_Start (connect a) (RemoteRelay_new L mail hs)
      | Exec q \<Rightarrow> type a = EXEC \<and>
          ExecRelay_Start a (os E) (ExecRelay_new L mail hs) = Running True q
      | RawExec q \<Rightarrow> type a = EXEC_RAW \<and>
          RawExecRelay_Start a (os E) (pipe_write E) (RawExecRelay_new mail hs) = Running True q)"

lemma Start_returns:
  "ExecRelay_Start a sp r = Running b r' \<Longrightarrow> b"
  "RawExecRelay_Start a sp w q = Running b q' \<Longrightarrow> b"
  by (auto elim: exec_Start_Running raw_Start_Running)

lemma relay_started_inv: "relay_started L E mail hs a r \<Longrightarrow> relay_inv r"
  by (auto simp: relay_started_def remote_inv_Start split: relay.splits
      dest: exec_inv_Start raw_inv_Start)

text \<open>The connection as \<open>Do()\<close> leaves it when the relay runs.\<close>

definition relaying :: "Action \<Rightarrow> relay \<Rightarrow> connection \<Rightarrow> connection" where
  "relaying a r c = c\<lparr>state := RELAYING, relay_operation := Some r,
     relay_timeout := (if 0 < timeout a then Some (timeout a) else relay_timeout c)\<rparr>"

definition start_errors :: "string set" where
  "start_errors = {''Zinternal server error'', ''Zwrite error''}"

lemma schedule_timeout_eq:
  "schedule_timeout a c =
    c\<lparr>relay_timeout := (if 0 < timeout a then Some (timeout a) else relay_timeout c)\<rparr>"
  by (cases c) (simp add: schedule_timeout_def)

lemma ending_state: "ending L c \<Longrightarrow> s \<noteq> END \<Longrightarrow> ending L (c\<lparr>state := s\<rparr>)"
  by (simp add: ending_def world_ok_def has_mail_def)

text \<open>What may have happened to the connection when an action has been carried out.\<close>

definition action_outcome ::
  "libs \<Rightarrow> conn_env \<Rightarrow> Action \<Rightarrow> IncomingMail \<Rightarrow> connection \<Rightarrow> connection \<Rightarrow> bool" where
  "action_outcome L E a mail c c' \<longleftrightarrow>
     (case type a of
        UNDEFINED \<Rightarrow> False
      | DISCARD \<Rightarrow> answers L E ''Kdiscarded'' (c\<lparr>state := NOT_RELAYING\<rparr>) c'
      | REJECT \<Rightarrow> answers L E ''Drejected'' (c\<lparr>state := NOT_RELAYING\<rparr>) c'
      | _ \<Rightarrow>
          (\<exists>r. relay_started L E mail (AssembleHeaders L (conn_peer c) mail) a r \<and> c' = relaying a r c) \<or>
          (\<exists>s r. s \<in> start_errors \<and> type a \<noteq> CONNECT \<and> answers L E s (relaying a r c) c'))"

lemma start_outcome:
  assumes "ending L c" and "s \<in> start_errors" and "type a \<noteq> CONNECT"
  shows "\<exists>c'. OnRelayError L E s (relaying a r c) = Inr c' \<and> answers L E s (relaying a r c) c'"
proof -
  have "ending L (relaying a r c)"
    using assms(1) by (simp add: relaying_def ending_state)
  then show ?thesis
    using assms(2) answer [of L "relaying a r c" s E]
    by (auto simp: OnRelayError_def relaying_def start_errors_def)
qed

lemma relaying_fold:
  "schedule_timeout a (c\<lparr>state := RELAYING\<rparr>)\<lparr>relay_operation := Some r\<rparr> = relaying a r c"
  by (simp add: schedule_timeout_eq relaying_def)

lemma Do_outcome:
  assumes "ending L c" and "action_ok a"
  shows "\<exists>c'. Do L E a mail c = Inr c' \<and> action_outcome L E a mail c c'"
proof (cases "type a")
  case UNDEFINED
  with assms(2) show ?thesis
    by (simp add: action_ok_def IsDefined_def)
next
  case DISCARD
  with answer [of L "c\<lparr>state := NOT_RELAYING\<rparr>" "''Kdiscarded''" E] assms(1) show ?thesis
    by (simp add: Do_def action_outcome_def ending_state)
next
  case REJECT
  with answer [of L "c\<lparr>state := NOT_RELAYING\<rparr>" "''Drejected''" E] assms(1) show ?thesis
    by (simp add: Do_def action_outcome_def ending_state)
next
  case CONNECT
  let ?c = "c\<lparr>state := RELAYING\<rparr>"
  have "conn_peer (schedule_timeout a ?c) = conn_peer c"
    by (simp add: schedule_timeout_eq)
  with CONNECT show ?thesis
    by (auto simp: Do_def action_outcome_def DoConnect_def finish_start_def relaying_fold
        relay_started_def Let_def intro!: exI [of _ "Remote _"])
next
  case EXEC
  let ?c = "c\<lparr>state := RELAYING\<rparr>" and ?hs = "AssembleHeaders L (conn_peer c) mail"
  have peer: "conn_peer (schedule_timeout a ?c) = conn_peer c"
    by (simp add: schedule_timeout_eq)
  show ?thesis
  proof (cases "ExecRelay_Start a (os E) (ExecRelay_new L mail ?hs)")
    case (Running b q)
    with Start_returns(1) [OF Running] EXEC peer show ?thesis
      by (auto simp: Do_def action_outcome_def DoExec_def finish_start_def relaying_fold
          relay_started_def Let_def intro!: exI [of _ "Exec q"])
  next
    case (Finished b q call)
    with exec_Start_call [OF Finished] EXEC peer
      start_outcome [OF assms(1), of "''Zinternal server error''" a E "Exec q"]
    show ?thesis
      by (auto simp: Do_def action_outcome_def DoExec_def finish_start_def relaying_fold
          start_errors_def Let_def)
  next
    case (Crashed x)
    with assms(2) EXEC exec_Start_safe [of a] show ?thesis
      by (auto simp: action_ok_def)
  qed
next
  case EXEC_RAW
  let ?c = "c\<lparr>state := RELAYING\<rparr>" and ?hs = "AssembleHeaders L (conn_peer c) mail"
  have peer: "conn_peer (schedule_timeout a ?c) = conn_peer c"
    by (simp add: schedule_timeout_eq)
  show ?thesis
  proof (cases "RawExecRelay_Start a (os E) (pipe_write E) (RawExecRelay_new mail ?hs)")
    case (Running b q)
    with Start_returns(2) [OF Running] EXEC_RAW peer show ?thesis
      by (auto simp: Do_def action_outcome_def DoRawExec_def finish_start_def relaying_fold
          relay_started_def Let_def intro!: exI [of _ "RawExec q"])
  next
    case (Finished b q call)
    then obtain s where "call = RelayError s" "s \<in> start_errors"
      using raw_Start_call [OF Finished] by (auto simp: start_errors_def)
    with Finished EXEC_RAW peer start_outcome [OF assms(1), of s a E "RawExec q"] show ?thesis
      by (auto simp: Do_def action_outcome_def DoRawExec_def finish_start_def relaying_fold Let_def)
  next
    case (Crashed x)
    with assms(2) EXEC_RAW raw_Start_safe [of a] show ?thesis
      by (auto simp: action_ok_def)
  qed
qed

section \<open>The specification of a step\<close>

text \<open>What may become of a living connection on each event, without regard to how the
  callbacks achieve it. Every end is one of the three kinds: answered, failed, left.\<close>

inductive turns :: "libs \<Rightarrow> conn_env \<Rightarrow> conn_event \<Rightarrow> connection \<Rightarrow> connection \<Rightarrow> bool"
  for L E where
  request_ok: "state c = INIT \<Longrightarrow>
    MutableMail_Parse L (new_mutable_mail payload) = (SUCCESS, mail) \<Longrightarrow>
    turns L E (EvRequest payload) c (mail_accepted L E mail c)"
| request_bad: "state c = INIT \<Longrightarrow>
    MutableMail_Parse L (new_mutable_mail payload) = (res, mail) \<Longrightarrow> res \<noteq> SUCCESS \<Longrightarrow>
    answers L E (parse_answer res) (c\<lparr>state := RECEIVED\<rparr>) c' \<Longrightarrow>
    turns L E (EvRequest payload) c c'"
| script: "turns L E (EvLua call) c (run_lua_call L call c)"
| action: "state c = LUA \<Longrightarrow> has_mail c \<Longrightarrow> mail_ptr c = Some k \<Longrightarrow> lua_heap c k = Some m \<Longrightarrow>
    action_ok a \<Longrightarrow> action_outcome L E a m (c\<lparr>lua_running := False\<rparr>) c' \<Longrightarrow>
    turns L E (EvLuaFinished (LAction a)) c c'"
| no_action: "state c = LUA \<Longrightarrow> CheckLuaAction v = None \<Longrightarrow>
    answers L E ''Zscript failed'' (c\<lparr>lua_running := False\<rparr>) c' \<Longrightarrow>
    turns L E (EvLuaFinished v) c c'"
| script_error: "state c = LUA \<Longrightarrow>
    answers L E ''Zscript failed'' (c\<lparr>lua_running := False\<rparr>) c' \<Longrightarrow>
    turns L E EvLuaError c c'"
| relay_runs: "state c = RELAYING \<Longrightarrow> relay_operation c = Some r \<Longrightarrow> relay_enabled r e \<Longrightarrow>
    relay_step e r = Running () r' \<Longrightarrow>
    turns L E (EvRelay e) c (c\<lparr>relay_operation := Some r'\<rparr>)"
| relay_calls: "state c = RELAYING \<Longrightarrow> relay_operation c = Some r \<Longrightarrow> relay_enabled r e \<Longrightarrow>
    relay_step e r = Finished () r' call \<Longrightarrow> call_ok call \<Longrightarrow>
    answers L E (response_of call) (c\<lparr>relay_operation := Some r'\<rparr>) c' \<Longrightarrow>
    turns L E (EvRelay e) c c'"
| timeout: "state c = RELAYING \<Longrightarrow> answers L E ''Ztimeout'' (c\<lparr>relay_timeout := None\<rparr>) c' \<Longrightarrow>
    turns L E EvTimeout c c'"
| error: "turns L E EvError c (ended L E ''client error'' [] c)"
| disconnect: "turns L E EvDisconnect c (ended L E ''canceled'' [] c)"

inductive_cases turns_timeoutE: "turns L E EvTimeout c c'"

lemma alive_simps:
  "alive L c \<Longrightarrow> \<not> destroyed c"
  "alive L c \<Longrightarrow> lua_running c \<longleftrightarrow> state c = LUA"
  "alive L c \<Longrightarrow> relay_operation c \<noteq> None \<longleftrightarrow> state c = RELAYING"
  "alive L c \<Longrightarrow> relay_timeout c \<noteq> None \<Longrightarrow> state c = RELAYING"
  "alive L c \<Longrightarrow> relay_operation c = Some r \<Longrightarrow> relay_inv r"
  "alive L c \<Longrightarrow> state c \<noteq> INIT \<Longrightarrow> has_mail c"
  "alive L c \<Longrightarrow> a \<in> set (lua_actions c) \<Longrightarrow> action_ok a"
  by (auto simp: alive_def waiting_def world_ok_def list_all_iff split: conn_state.splits)

lemma EvLuaFinished_turns:
  assumes "alive L c" and "conn_enabled E c (EvLuaFinished v)"
  shows "\<exists>c'. conn_step L E (EvLuaFinished v) c = Inr c' \<and> turns L E (EvLuaFinished v) c c'"
proof -
  let ?c = "c\<lparr>lua_running := False\<rparr>"
  from assms have LUA: "state c = LUA"
    by (simp add: alive_simps)
  then have "has_mail c"
    using alive_simps(6) [OF assms(1)] by simp
  then obtain k m where k: "mail_ptr c = Some k" "lua_heap c k = Some m"
    by (auto simp: has_mail_def live_in_def)
  have ending: "ending L ?c"
    using alive_ending [OF assms(1)] by simp
  show ?thesis
  proof (cases "CheckLuaAction v")
    case None
    with answer [OF ending, of "''Zscript failed''" E] LUA k show ?thesis
      by (auto simp: OnLuaFinished_def OnLuaError_def intro: turns.no_action)
  next
    case (Some a)
    then have v: "v = LAction a"
      by (simp add: CheckLuaAction_eq)
    with assms have "action_ok a"
      by (simp add: alive_simps)
    from Do_outcome [OF ending this, of E m] obtain c' where
      "Do L E a m ?c = Inr c'" "action_outcome L E a m ?c c'"
      by blast
    with LUA k \<open>has_mail c\<close> \<open>action_ok a\<close> v show ?thesis
      by (auto simp: OnLuaFinished_def CheckLuaAction_def intro: turns.action)
  qed
qed

lemma EvRelay_turns:
  assumes "alive L c" and "conn_enabled E c (EvRelay e)"
  shows "(case conn_step L E (EvRelay e) c of
      Inl x \<Rightarrow> relay_hazard e | Inr c' \<Rightarrow> turns L E (EvRelay e) c c')"
proof -
  from assms(2) obtain r where r: "relay_operation c = Some r" "relay_enabled r e"
    by (auto split: option.splits)
  then have st: "state c = RELAYING" and inv: "relay_inv r"
    using alive_simps(3,5) [OF assms(1)] by auto
  show ?thesis
  proof (cases "relay_step e r")
    case (Running u r')
    with r st show ?thesis
      by (simp add: OnRelayEvent_def turns.relay_runs)
  next
    case (Finished u r' call)
    let ?c = "c\<lparr>relay_operation := Some r'\<rparr>"
    have call: "call_ok call"
      using any_relay.step_call [OF inv r(2) Finished] .
    from call_answers [OF _ _ call, of L ?c E] st alive_ending [OF assms(1)] obtain c' where
      "call_handler (OnRelayResponse L E) (OnRelayError L E) call ?c = Inr c'"
      "answers L E (response_of call) ?c c'"
      by auto
    with r st Finished call show ?thesis
      by (simp add: OnRelayEvent_def turns.relay_calls)
  next
    case (Crashed x)
    with any_relay.step_safe [OF inv r(2)] r show ?thesis
      by (auto simp: OnRelayEvent_def)
  qed
qed

lemma EvRequest_turns:
  assumes "alive L c" and "conn_enabled E c (EvRequest payload)"
  shows "\<exists>c'. conn_step L E (EvRequest payload) c = Inr c' \<and> turns L E (EvRequest payload) c c'"
proof -
  obtain res mail where parse: "MutableMail_Parse L (new_mutable_mail payload) = (res, mail)"
    by (cases "MutableMail_Parse L (new_mutable_mail payload)")
  from assms have INIT: "state c = INIT"
    by simp
  show ?thesis
  proof (cases "res = SUCCESS")
    case True
    with parse INIT OnRequest_success show ?thesis
      by (auto intro: turns.request_ok)
  next
    case False
    have "parse_answer res \<noteq> []"
      using parse_answer_good [OF False] by (simp add: good_defs)
    with answer [OF ending_RECEIVED [OF assms(1) INIT], of "parse_answer res" E] obtain c' where
      "Finish L E (parse_answer res) (c\<lparr>state := RECEIVED\<rparr>) = Inr c'"
      "answers L E (parse_answer res) (c\<lparr>state := RECEIVED\<rparr>) c'"
      by auto
    with OnRequest_failure [OF INIT parse False] INIT parse False show ?thesis
      by (auto intro: turns.request_bad)
  qed
qed

lemma step_turns:
  assumes "alive L c" and "conn_enabled E c e"
  shows "(case conn_step L E e c of Inl x \<Rightarrow> conn_hazard e | Inr c' \<Rightarrow> turns L E e c c')"
proof (cases e)
  case (EvRequest payload)
  with EvRequest_turns [of L c E payload] assms show ?thesis
    by auto
next
  case (EvLua call)
  then show ?thesis
    by (simp add: turns.script)
next
  case (EvLuaFinished v)
  with EvLuaFinished_turns [of L c E v] assms show ?thesis
    by auto
next
  case EvLuaError
  with assms have "state c = LUA" "mail_ptr c \<noteq> None"
    using alive_simps(6) [OF assms(1)] by (auto simp: alive_simps has_mail_def)
  with EvLuaError answer [of L "c\<lparr>lua_running := False\<rparr>" "''Zscript failed''" E]
    alive_ending [OF assms(1)] show ?thesis
    by (auto simp: OnLuaError_def intro: turns.script_error)
next
  case (EvRelay r)
  with EvRelay_turns [of L c E r] assms show ?thesis
    by (simp split: sum.splits)
next
  case EvTimeout
  with assms have "state c = RELAYING"
    by (auto intro: alive_simps(4))
  with EvTimeout answer [of L "c\<lparr>relay_timeout := None\<rparr>" "''Ztimeout''" E]
    alive_ending [OF assms(1)] show ?thesis
    by (auto simp: OnRelayTimeout_def intro: turns.timeout)
next
  case EvError
  with OnError_eq [OF ending_may_end [OF alive_ending [OF assms(1)]], of L E] show ?thesis
    by (simp add: turns.error)
next
  case EvDisconnect
  with OnDisconnect_eq [OF ending_may_end [OF alive_ending [OF assms(1)]], of L E] show ?thesis
    by (simp add: turns.disconnect)
qed

section \<open>Every step keeps the invariant\<close>

lemma relaying_alive:
  assumes "ending L c" and "has_mail c" and "\<not> lua_running c" and "relay_inv r"
  shows "alive L (relaying a r c)"
  using assms
  by (auto simp: alive_def ending_def waiting_def relaying_def world_ok_def has_mail_def)

text \<open>The three ends, as far as the outside can tell: with one answer, or without any.\<close>

lemma answers_over:
  "answers L E s c c' \<Longrightarrow> good_response s \<Longrightarrow> dead L c'"
  using answers_dead by blast

lemma start_errors_good: "s \<in> start_errors \<Longrightarrow> good_response s \<and> hd s = CHR ''Z''"
  by (auto simp: start_errors_def good_defs)

lemma action_outcome_cases:
  assumes "action_outcome L E a m c c'"
  obtains (answered) c0 s where "answers L E s c0 c'" "good_response s"
      "hd s = CHR ''K'' \<longrightarrow> type a = DISCARD \<and> s = ''Kdiscarded''"
      "mail_ptr c0 = mail_ptr c" "lua_heap c0 = lua_heap c" "auto_close_list c0 = auto_close_list c"
  | (relays) r where "relay_started L E m (AssembleHeaders L (conn_peer c) m) a r"
      "c' = relaying a r c"
proof -
  have relaying: "mail_ptr (relaying a r c) = mail_ptr c" "lua_heap (relaying a r c) = lua_heap c"
      "auto_close_list (relaying a r c) = auto_close_list c" for r
    by (simp_all add: relaying_def)
  have started: thesis if "type a \<notin> {UNDEFINED, DISCARD, REJECT}"
  proof -
    from assms that consider r where
        "relay_started L E m (AssembleHeaders L (conn_peer c) m) a r" "c' = relaying a r c"
      | s r where "s \<in> start_errors" "answers L E s (relaying a r c) c'"
      by (cases "type a") (auto simp: action_outcome_def)
    then show thesis
    proof cases
      case 1
      then show thesis by (rule relays)
    next
      case 2
      with answered [OF 2(2)] start_errors_good [OF 2(1)] relaying show thesis by simp
    qed
  qed
  show thesis
  proof (cases "type a")
    case DISCARD
    with assms answered [of "''Kdiscarded''" "c\<lparr>state := NOT_RELAYING\<rparr>"] show thesis
      by (simp add: action_outcome_def good_defs)
  next
    case REJECT
    with assms answered [of "''Drejected''" "c\<lparr>state := NOT_RELAYING\<rparr>"] show thesis
      by (simp add: action_outcome_def good_defs)
  qed (use assms started in \<open>simp_all add: action_outcome_def\<close>)
qed

lemma turns_inv:
  assumes "libs_ok L" and "alive L c" and "turns L E e c c'" and "conn_enabled E c e"
  shows "alive L c' \<or> dead L c'"
  using assms(3)
proof (cases rule: turns.cases)
  case (request_ok payload mail)
  then show ?thesis
    using alive_LUA [OF libs_okD(1,2) [OF assms(1)] assms(2)] by auto
next
  case (request_bad payload res mail)
  with parse_answer_good answers_over show ?thesis
    by blast
next
  case (script call)
  then show ?thesis
    using alive_script libs_okD(4,8) [OF assms(1)] assms(2) by auto
next
  case (action k m a)
  from action(7) show ?thesis
  proof (cases rule: action_outcome_cases)
    case (answered c0 s)
    with answers_over show ?thesis by blast
  next
    case (relays r)
    then show ?thesis
      using relaying_alive [of L "c\<lparr>lua_running := False\<rparr>" r a] action(3)
        relay_started_inv alive_ending [OF assms(2)] by (auto simp: has_mail_def)
  qed
next
  case (no_action v)
  with answers_over [OF no_action(4)] show ?thesis by (simp add: good_defs)
next
  case script_error
  with answers_over [OF script_error(3)] show ?thesis by (simp add: good_defs)
next
  case (relay_runs r ev r')
  have inv: "relay_inv r"
    using alive_simps(5) [OF assms(2) relay_runs(4)] .
  have "relay_inv r'"
    using any_relay.step_inv [OF inv relay_runs(5,6)] .
  with relay_runs assms(2) show ?thesis
    by (auto simp: alive_def waiting_def world_ok_def has_mail_def)
next
  case (relay_calls r ev r' call)
  with answers_over call_ok_good show ?thesis by blast
next
  case timeout
  with answers_over [OF timeout(3)] show ?thesis by (simp add: good_defs)
next
  case error
  then show ?thesis
    using ended_dead [OF alive_ending [OF assms(2)], of "[]"] by simp
next
  case disconnect
  then show ?thesis
    using ended_dead [OF alive_ending [OF assms(2)], of "[]"] by simp
qed

section \<open>Reachable states\<close>

text \<open>All connections share one Lua state. What a connection relies on while others run: mail
  objects stay well formed, actions complete, and the objects it will close keep their
  content, that is everything but headers, sender, account and cached attributes.\<close>

definition rely :: "libs \<Rightarrow> connection \<Rightarrow> lua_heap \<Rightarrow> Action list \<Rightarrow> bool" where
  "rely L c h as \<longleftrightarrow> heap_ok L h \<and> list_all action_ok as \<and>
     (\<forall>k \<in> set (auto_close_list c). \<forall>m. lua_heap c k = Some m \<longrightarrow>
        (\<exists>m'. h k = Some m' \<and> same_content m m'))"

text \<open>\<open>conn_trace L es c\<close>: a fresh connection has come to \<open>c\<close> by the events \<open>es\<close>, each in an
  environment of its own, with any such interference in between.\<close>

inductive conn_trace :: "libs \<Rightarrow> conn_event list \<Rightarrow> connection \<Rightarrow> bool" for L where
  start: "heap_ok L h \<Longrightarrow> list_all action_ok as \<Longrightarrow> conn_trace L [] (connection_new L l t p h as)"
| step: "conn_trace L es c \<Longrightarrow> conn_enabled E c e \<Longrightarrow> conn_step L E e c = Inr c' \<Longrightarrow>
    conn_trace L (es @ [e]) c'"
| interfere: "conn_trace L es c \<Longrightarrow> rely L c h as \<Longrightarrow>
    conn_trace L es (c\<lparr>lua_heap := h, lua_actions := as\<rparr>)"

lemma has_mail_rely:
  assumes "has_mail c" and "rely L c h as"
  shows "has_mail (c\<lparr>lua_heap := h, lua_actions := as\<rparr>)"
  using assms by (fastforce simp: has_mail_def live_in_def rely_def same_content_def IsStale_def)

lemma alive_rely:
  assumes "alive L c" and "rely L c h as"
  shows "alive L (c\<lparr>lua_heap := h, lua_actions := as\<rparr>)"
  using assms has_mail_rely [OF _ assms(2)]
  by (auto simp: alive_def waiting_def world_ok_def rely_def split: conn_state.splits)

lemma dead_rely:
  assumes "dead L c" and "rely L c h as"
  shows "dead L (c\<lparr>lua_heap := h, lua_actions := as\<rparr>)"
  using assms
  by (fastforce simp: dead_def world_ok_def rely_def list_all_iff stale_in_def same_content_def
      IsStale_def)

lemma enabled_alive: "conn_enabled E c e \<Longrightarrow> \<not> destroyed c"
  by (cases e) auto

lemma trace_inv:
  assumes "libs_ok L" and "conn_trace L es c"
  shows "if destroyed c then dead L c else alive L c"
  using assms(2)
proof (induction rule: conn_trace.induct)
  case (start h as t p)
  then show ?case
    using alive_new by (auto simp: alive_def)
next
  case (step es c E e c')
  then have "alive L c"
    using enabled_alive by auto
  then have "turns L E e c c'"
    using step_turns [OF _ step.hyps(2)] step.hyps(3) by fastforce
  then show ?case
    using turns_inv [OF assms(1) \<open>alive L c\<close> _ step.hyps(2)] by (auto simp: alive_def dead_def)
next
  case (interfere es c h as)
  then show ?case
    using alive_rely dead_rely by (auto split: if_splits)
qed

lemma trace_alive: "libs_ok L \<Longrightarrow> conn_trace L es c \<Longrightarrow> \<not> destroyed c \<Longrightarrow> alive L c"
  using trace_inv by fastforce

lemma trace_dead: "libs_ok L \<Longrightarrow> conn_trace L es c \<Longrightarrow> destroyed c \<Longrightarrow> dead L c"
  using trace_inv by fastforce

lemma trace_turns:
  assumes "libs_ok L" and "conn_trace L es c" and "conn_enabled E c e"
    and "conn_step L E e c = Inr c'"
  shows "alive L c \<and> turns L E e c c'"
  using trace_alive [OF assms(1,2) enabled_alive [OF assms(3)]] step_turns [OF _ assms(3), of L]
    assms(4) by fastforce

end
