(* ===== verification/ConnectionProps.thy ===== *)
theory ConnectionProps
  imports ConnectionLife
begin

text \<open>
  The properties of a connection: it never crashes outside the one known hazard, gives at
  most one answer, accepts a mail only for a reason that can be named, and cleans up.
\<close>

section \<open>The history of a relay\<close>

text \<open>The relay of a connection is its start state driven by the relay events of the trace.\<close>

fun relay_event_of :: "conn_event \<Rightarrow> relay_event list" where
  "relay_event_of (EvRelay r) = [r]"
| "relay_event_of _ = []"

definition relay_events :: "conn_event list \<Rightarrow> relay_event list" where
  "relay_events es = concat (map relay_event_of es)"

lemma relay_events_simps [simp]:
  "relay_events [] = []"
  "relay_events (es @ [e]) = relay_events es @ relay_event_of e"
  by (simp_all add: relay_events_def)

lemma relay_event_of_set [simp]: "r \<in> set (relay_event_of e) \<longleftrightarrow> e = EvRelay r"
  by (cases e) auto

lemma relay_events_set: "r \<in> set (relay_events es) \<longleftrightarrow> EvRelay r \<in> set es"
  by (auto simp: relay_events_def)

definition relay_from :: "libs \<Rightarrow> relay_event list \<Rightarrow> relay \<Rightarrow> bool" where
  "relay_from L res r \<longleftrightarrow> (\<exists>E m hs a r0. relay_started L E m hs a r0 \<and>
     run_relay relay_step res r0 = Running () r \<and> run_enabled relay_step relay_enabled res r0)"

lemma run_enabled_append:
  "run_enabled f en (es @ [e]) r \<longleftrightarrow>
    run_enabled f en es r \<and> (case run_relay f es r of Running u r' \<Rightarrow> en r' e | _ \<Rightarrow> True)"
proof (induction es arbitrary: r)
  case (Cons a es)
  then show ?case
    by (cases "f a r") auto
qed (simp split: outcome.split)

lemma relay_from_step:
  assumes "relay_from L res r" and "relay_enabled r e" and "relay_step e r = Running () r'"
  shows "relay_from L (res @ [e]) r'"
  using assms unfolding relay_from_def by (fastforce simp: run_relay_append run_enabled_append)

definition history :: "libs \<Rightarrow> conn_event list \<Rightarrow> connection \<Rightarrow> bool" where
  "history L es c \<longleftrightarrow>
     (case relay_operation c of None \<Rightarrow> relay_events es = [] | Some r \<Rightarrow> relay_from L (relay_events es) r)"

lemma trace_history:
  assumes "libs_ok L" and "conn_trace L es c" and "\<not> destroyed c"
  shows "history L es c"
  using assms(2,3)
proof (induction rule: conn_trace.induct)
  case (start h as t p)
  then show ?case
    by (simp add: history_def connection_new_def)
next
  case (step es c E e c')
  have c: "alive L c" "turns L E e c c'"
    using trace_turns [OF assms(1) step.hyps] by auto
  have c': "alive L c'"
    using trace_alive [OF assms(1) conn_trace.step [OF step.hyps] step.prems] .
  have hist: "history L es c"
    using step.IH c(1) by (simp add: alive_simps)
  from c(2) show ?case
  proof (cases rule: turns.cases)
    case (request_ok payload mail)
    with hist show ?thesis
      by (simp add: history_def mail_accepted_def split: option.splits)
  next
    case (script call)
    with hist show ?thesis
      by (simp add: history_def split: option.splits)
  next
    case (action k m a)
    then have "relay_operation c = None"
      using alive_simps(3) [OF c(1)] by simp
    with hist have none: "relay_events es = []"
      by (simp add: history_def)
    from action(7) show ?thesis
    proof (cases rule: action_outcome_cases)
      case (answered c0 s)
      with step.prems show ?thesis by (simp add: answers_def)
    next
      case (relays r)
      then have "relay_from L [] r"
        unfolding relay_from_def by force
      with relays none action show ?thesis
        by (simp add: history_def relaying_def)
    qed
  next
    case (relay_runs r ev r')
    with hist have "relay_from L (relay_events es) r"
      by (simp add: history_def)
    with relay_runs relay_from_step [OF this relay_runs(5,6)] show ?thesis
      by (simp add: history_def)
  qed (use step.prems in \<open>auto simp: answers_def\<close>)
next
  case (interfere es c h as)
  then show ?case
    by (simp add: history_def)
qed

text \<open>A relay seen through its class behaves as the class does.\<close>

lemma run_embed:
  assumes "\<And>e q. step' (f e) (g q) = map_relay g (step e q)"
    and "\<And>x q. en' (g q) x \<Longrightarrow> \<exists>e. x = f e \<and> en q e"
    and "run_enabled step' en' xs (g q)"
  shows "\<exists>es. f ` set es \<subseteq> set xs \<and> run_enabled step en es q \<and>
    run_relay step' xs (g q) = map_relay g (run_relay step es q)"
  using assms(3)
proof (induction xs arbitrary: q)
  case Nil
  then show ?case
    by (intro exI [of _ "[]"]) simp
next
  case (Cons x xs)
  then have "en' (g q) x"
    by simp
  from assms(2) [OF this] obtain e where e: "x = f e" "en q e"
    by blast
  show ?case
  proof (cases "step e q")
    case (Running u q')
    with Cons.prems e assms(1) have "run_enabled step' en' xs (g q')"
      by simp
    from Cons.IH [OF this] obtain es where "f ` set es \<subseteq> set xs" "run_enabled step en es q'"
        "run_relay step' xs (g q') = map_relay g (run_relay step es q')"
      by blast
    with e Running assms(1) show ?thesis
      by (intro exI [of _ "e # es"]) auto
  qed (use e assms(1) in \<open>intro exI [of _ "[e]"], simp\<close>)+
qed

lemma relay_enabled_embed:
  "relay_enabled (Remote q) x \<Longrightarrow> \<exists>e. x = RemoteEvent e \<and> remote_enabled q e"
  "relay_enabled (Exec q') x \<Longrightarrow> \<exists>e. x = ExecEvent e \<and> exec_enabled q' e"
  "relay_enabled (RawExec q'') x \<Longrightarrow> \<exists>e. x = RawEvent e \<and> raw_enabled q'' e"
  by (cases x; simp)+

lemmas run_embeds =
  run_embed [where step' = relay_step and f = RemoteEvent and g = Remote and step = remote_step and
    en' = relay_enabled and en = remote_enabled, OF relay_step.simps(1) relay_enabled_embed(1)]
  run_embed [where step' = relay_step and f = ExecEvent and g = Exec and step = exec_step and
    en' = relay_enabled and en = exec_enabled, OF relay_step.simps(2) relay_enabled_embed(2)]
  run_embed [where step' = relay_step and f = RawEvent and g = RawExec and step = raw_step and
    en' = relay_enabled and en = raw_enabled, OF relay_step.simps(3) relay_enabled_embed(3)]

lemma map_relay_Finished:
  "Finished u x c = map_relay f out \<longleftrightarrow> (\<exists>r. out = Finished u r c \<and> x = f r)"
  by (cases out) auto

text \<open>What stands behind an acceptance reported by a relay.\<close>

definition relay_evidence :: "relay_event set \<Rightarrow> string \<Rightarrow> bool" where
  "relay_evidence res s \<longleftrightarrow>
     RemoteEvent (RemoteResponse (Some s)) \<in> res \<or>
     (ExecEvent (ExecResponse (Some s)) \<in> res \<and>
       (\<exists>st. ExecEvent (ChildExit st) \<in> res \<and> child_succeeded st)) \<or>
     (\<exists>st. RawEvent (RawChildExit st) \<in> res \<and> child_succeeded st)"

lemma remote_accept:
  "run_relay remote_step es r = Finished u r' (RelayResponse s) \<Longrightarrow> s \<noteq> [] \<Longrightarrow>
    RemoteResponse (Some s) \<in> set es"
proof (induction es arbitrary: r)
  case Nil
  then show ?case by simp
next
  case (Cons e es)
  show ?case
  proof (cases e)
    case (RemoteResponse p)
    with Cons show ?thesis
      by (cases p) (auto simp: BasicRelay_OnNetstringResponse_def array_bytes_def split: if_splits)
  qed (use Cons in \<open>auto simp: OnSocketConnectSuccess_def OnSocketConnectError_def
      BasicRelay_OnNetstringError_def\<close>)
qed

lemma relay_accept:
  assumes "relay_started L E m hs a r0" and "run_enabled relay_step relay_enabled res r0"
    and "run_relay relay_step res r0 = Finished () r' (RelayResponse s)" and "s \<noteq> []"
  shows "relay_evidence (set res) s"
proof (cases r0)
  case (Remote q)
  from run_embeds(1) [of res q] assms(2,3) Remote obtain es q' where
    "RemoteEvent ` set es \<subseteq> set res" "run_relay remote_step es q = Finished () q' (RelayResponse s)"
    by (auto simp: map_relay_Finished)
  with remote_accept [OF this(2) assms(4)] show ?thesis
    by (auto simp: relay_evidence_def)
next
  case (Exec q)
  from run_embeds(2) [of res q] assms(2,3) Exec obtain es q' where es:
    "ExecEvent ` set es \<subseteq> set res" "run_relay exec_step es q = Finished () q' (RelayResponse s)"
    by (auto simp: map_relay_Finished)
  have "pidfd q" "deferred_response q = None"
    using assms(1) Exec by (auto simp: relay_started_def dest: exec_inv_Start)
  from exec_accept [OF this es(2)] es(1) show ?thesis
    by (auto simp: relay_evidence_def)
next
  case (RawExec q)
  from run_embeds(3) [of res q] assms(2,3) RawExec obtain es q' where es:
    "RawEvent ` set es \<subseteq> set res" "run_relay raw_step es q = Finished () q' (RelayResponse s)"
    by (auto simp: map_relay_Finished)
  have "raw_inv q" "raw_pidfd q"
    using assms(1) RawExec by (auto simp: relay_started_def dest: raw_inv_Start)
  from raw_accept [OF this es(2)] es(1) show ?thesis
    by (auto simp: relay_evidence_def)
qed

text \<open>If the relay of a connection calls its handler with an acceptance, the evidence is among
  the events of the connection.\<close>

lemma relay_from_accept:
  assumes "relay_from L res r" and "relay_enabled r e"
    and "relay_step e r = Finished () r' (RelayResponse s)" and "s \<noteq> []"
  shows "relay_evidence (set (res @ [e])) s"
proof -
  from assms(1) obtain E m hs a r0 where r0: "relay_started L E m hs a r0"
    "run_relay relay_step res r0 = Running () r" "run_enabled relay_step relay_enabled res r0"
    by (auto simp: relay_from_def)
  from relay_accept [OF r0(1), of "res @ [e]" r' s] r0(2,3) assms(2-4) show ?thesis
    by (simp add: run_relay_append run_enabled_append)
qed

section \<open>The history of the mail\<close>

text \<open>A connection gets one request; from then on its mail has the content that was received.\<close>

fun request_of :: "conn_event \<Rightarrow> string option list" where
  "request_of (EvRequest p) = [p]"
| "request_of _ = []"

definition requests :: "conn_event list \<Rightarrow> string option list" where
  "requests es = concat (map request_of es)"

lemma requests_simps [simp]:
  "requests [] = []"
  "requests (es @ [e]) = requests es @ request_of e"
  by (simp_all add: requests_def)

lemma requests_set: "EvRequest p \<in> set es \<Longrightarrow> p \<in> set (requests es)"
  by (force simp: requests_def)

definition mail_history :: "libs \<Rightarrow> conn_event list \<Rightarrow> connection \<Rightarrow> bool" where
  "mail_history L es c \<longleftrightarrow>
     (if state c = INIT then requests es = []
      else \<exists>p mail k m. requests es = [p] \<and>
        MutableMail_Parse L (new_mutable_mail p) = (SUCCESS, mail) \<and>
        mail_ptr c = Some k \<and> lua_heap c k = Some m \<and>
        same_content (NewIncomingMail (received_mail L mail) (conn_peer c)) m)"

lemma mail_history_kept:
  assumes "mail_history L es c" and "request_of e = []" and "state c \<noteq> INIT" and "state c' \<noteq> INIT"
    and "mail_ptr c' = mail_ptr c" and "lua_heap c' = lua_heap c" and "conn_peer c' = conn_peer c"
  shows "mail_history L (es @ [e]) c'"
  using assms by (simp add: mail_history_def)

lemma requests_fit: "conn_trace L es c \<Longrightarrow> EvRequest p \<in> set es \<Longrightarrow> fits64 (array_bytes p)"
proof (induction rule: conn_trace.induct)
  case (step es c E e c')
  have "unat (max_size c) < 2 ^ 64"
    using unsigned_less [of "max_size c"] by simp
  with step show ?case
    by (auto simp: fits64_def)
qed simp_all

lemma trace_mail_history:
  assumes "libs_ok L" and "conn_trace L es c" and "\<not> destroyed c"
  shows "mail_history L es c"
  using assms(2,3)
proof (induction rule: conn_trace.induct)
  case (start h as t p)
  then show ?case
    by (simp add: mail_history_def connection_new_def)
next
  case (step es c E e c')
  have c: "alive L c" "turns L E e c c'"
    using trace_turns [OF assms(1) step.hyps] by auto
  have hist: "mail_history L es c"
    using step.IH c(1) by (simp add: alive_simps)
  from c(2) show ?case
  proof (cases rule: turns.cases)
    case (request_ok payload mail)
    with hist show ?thesis
      by (auto simp: mail_history_def mail_accepted_def NewLuaMail_def)
  next
    case (script call)
    show ?thesis
    proof (cases "state c = INIT")
      case False
      with hist obtain p mail k m where m: "requests es = [p]"
          "MutableMail_Parse L (new_mutable_mail p) = (SUCCESS, mail)" "mail_ptr c = Some k"
          "lua_heap c k = Some m"
          "same_content (NewIncomingMail (received_mail L mail) (conn_peer c)) m"
        by (auto simp: mail_history_def)
      from lua_exec_after(3) [where h = "lua_heap c" and k = k and m = m and L = L and c = call] m(4)
      obtain m' where "heap_after (lua_exec L call (lua_heap c)) (lua_heap c) k = Some m'"
          "same_content m m'"
        by blast
      with m False script show ?thesis
        by (auto simp: mail_history_def intro: same_content_trans)
    qed (use hist script in \<open>simp add: mail_history_def\<close>)
  next
    case (action k m a)
    from action(7) show ?thesis
    proof (cases rule: action_outcome_cases)
      case (answered c0 s)
      with step.prems show ?thesis by (simp add: answers_def)
    next
      case (relays r)
      with action hist show ?thesis
        by (intro mail_history_kept [of L es c]) (simp_all add: relaying_def)
    qed
  next
    case (relay_runs r ev r')
    with hist show ?thesis
      by (intro mail_history_kept [of L es c]) simp_all
  qed (use step.prems in \<open>auto simp: answers_def\<close>)
next
  case (interfere es c h as)
  then have "alive L c" and hist: "mail_history L es c"
    using trace_alive [OF assms(1)] by auto
  then show ?case
    using interfere.hyps(2) alive_simps(6) [of L c]
    by (fastforce simp: mail_history_def has_mail_def rely_def intro: same_content_trans)
qed

section \<open>The \<open>Received\<close> header\<close>

lemma length_dec_of_sint: "length (dec_of_int (sint (w :: 32 word))) \<le> 11"
proof -
  have "sint w < 2 ^ 31" "- (2 ^ 31) \<le> sint w"
    using sint_lt [of w] sint_ge [of w] by simp_all
  then have "nat (sint w) < 10 ^ 10" "nat (- sint w) < 10 ^ 10"
    by simp_all
  then show ?thesis
    using length_dec_of_nat [of "nat (sint w)" 10] length_dec_of_nat [of "nat (- sint w)" 10]
    by (auto simp: dec_of_int_def)
qed

lemma length_dec_of_uint: "length (dec_of_int (uint (w :: 32 word))) \<le> 10"
proof -
  have "unat w < 2 ^ LENGTH(32)"
    by (rule unsigned_less)
  then have "unat w < 10 ^ 10"
    by simp
  then show ?thesis
    using length_dec_of_nat [of "unat w" 10] by (auto simp: dec_of_int_def)
qed

definition received_line :: "peer_auth \<Rightarrow> string" where
  "received_line p = ''Received: from PID='' @ dec_of_int (sint (pid p)) @ '' UID='' @
     dec_of_int (uint (uid p)) @ '' with QMQP'' @ CRLF"

lemma AssembleHeaders_eq:
  "fmt_law L \<Longrightarrow> AssembleHeaders L p m = headers m @ (if have_cred p then [received_line p] else [])"
  by (simp only: AssembleHeaders_def fmt_received received_line_def)

lemma received_line_length: "length (received_line p) \<le> 57"
  using length_dec_of_sint [of "pid p"] length_dec_of_uint [of "uid p"]
  by (simp add: received_line_def)

lemma received_line_single: "\<exists>t. received_line p = t @ CRLF \<and> CR \<notin> set t \<and> LF \<notin> set t"
proof -
  have "CR \<notin> set (dec_of_int i)" "LF \<notin> set (dec_of_int i)" for i
    using dec_of_nat_digits [of "nat i"] dec_of_nat_digits [of "nat (- i)"]
    by (auto simp: dec_of_int_def list_all_iff is_digit_def)
  then show ?thesis
    by (intro exI [of _ "''Received: from PID='' @ dec_of_int (sint (pid p)) @ '' UID='' @
      dec_of_int (uint (uid p)) @ '' with QMQP''"]) (simp add: received_line_def)
qed

lemma generator_length:
  "netstring_generator_law L \<Longrightarrow> length (NetstringGenerator L xs True) \<le> length xs + 2"
  by (simp add: netstring_generator_law_def)

section \<open>The log\<close>

text \<open>The text of a log datagram.\<close>

definition log_text :: "IncomingMail \<Rightarrow> string \<Rightarrow> string" where
  "log_text m msg = ''from=<'' @ sender m @ ''> to='' @
     (case recipients m of
        [] \<Rightarrow> []
      | r # rs \<Rightarrow> ''<'' @ r @ ''>'' @ concat (map (\<lambda>q. '',<'' @ q @ ''>'') rs)) @
     (if msg = [] then [] else '' '' @ msg)"

lemma log_recipients_eq:
  "fmt_law L \<Longrightarrow> log_recipients L True buf rs = buf @ concat (map (\<lambda>q. '',<'' @ q @ ''>'') rs)"
  by (induction rs arbitrary: buf) (simp_all add: fmt_angle)

lemma log_message_eq: "fmt_law L \<Longrightarrow> log_message L m msg = log_text m msg"
  by (simp add: log_message_def log_text_def fmt_from fmt_angle log_recipients_eq
      split: list.split)

text \<open>What a datagram says of a mail and its connection; the sums are those of 64 bit words.\<close>

definition log_about :: "libs \<Rightarrow> conn_env \<Rightarrow> connection \<Rightarrow> IncomingMail \<Rightarrow> string \<Rightarrow> bool \<Rightarrow> log_datagram \<Rightarrow> bool" where
  "log_about L E c m msg relayed d \<longleftrightarrow>
     dg_timestamp d = FromSystem L (system_now E) \<and>
     dg_duration d = to_log_duration L (steady_now E - start_time c) \<and>
     dg_message d = take 1024 (log_text m msg) \<and> dg_type d = SUBMISSION L \<and>
     dg_site d = (if account m = [] then None else Some (c_str (account m))) \<and>
     dg_traffic_received d = of_nat (length (array_bytes (buffer m))) \<and>
     dg_length d = of_nat (length (concat (headers m) @ message m)) \<and>
     dg_traffic_sent d =
       (if relayed then of_nat (length (array_bytes (buffer m)) + length (concat (headers m))) else 0)"

lemma TotalSize_eq: "TotalSize xs = of_nat (length (concat xs))"
proof -
  have "foldl (\<lambda>result i. result + of_nat (length i)) n xs = n + (of_nat (length (concat xs)) :: size64)" for n
    by (induction xs arbitrary: n) (simp_all add: add.assoc)
  then show ?thesis
    by (simp add: TotalSize_def)
qed

lemma log_about_entry:
  assumes "fmt_law L" and "message_limit_law L"
  shows "log_about L E c m msg (RELAYING \<le> state c)
    (TruncateMessage L 1024 (log_datagram_of L E c m msg))"
  using assms(2) [unfolded message_limit_law_def] log_message_eq [OF assms(1)]
  by (simp add: log_about_def log_datagram_of_def Let_def TotalSize_eq add.commute)

lemma log_entry_about:
  assumes "libs_ok L" and "message_limit_law L" and "mail_ptr c = Some k" and "lua_heap c k = Some m"
  shows "if log_defined E
    then \<exists>d. log_entry L E msg c = [d] \<and> log_about L E c m msg (RELAYING \<le> state c) d
    else log_entry L E msg c = []"
  using log_about_entry [OF libs_okD(8) [OF assms(1)] assms(2)] assms(3,4) by (simp add: log_entry_def)

text \<open>What the connection was doing when it ended on an event, and how it ended.\<close>

definition was_relayed :: "conn_event \<Rightarrow> connection \<Rightarrow> bool" where
  "was_relayed e c \<longleftrightarrow> state c = RELAYING \<or>
     (\<exists>a. e = EvLuaFinished (LAction a) \<and> type a \<notin> {DISCARD, REJECT})"

definition final_words :: "conn_event \<Rightarrow> connection \<Rightarrow> string" where
  "final_words e c' =
     (case responses c' of s # _ \<Rightarrow> tl s | [] \<Rightarrow> if e = EvError then ''client error'' else ''canceled'')"

section \<open>A sample run\<close>

definition sample_env :: conn_env where
  "sample_env = \<lparr>log_defined = True, send_ok = True, system_now = 1000, steady_now = 7,
     os = sample_spawn_env,
     pipe_write = WriteFinished, fresh_cell = 0\<rparr>"

definition sample_payload :: string where
  "sample_payload = ''2: m,3:a@b,3:c@d,''"

definition sample_action :: "action_type \<Rightarrow> Action" where
  "sample_action t = \<lparr>type = t, connect = ''1.2.3.4'', exec = [''/bin/x''], env = [], timeout = 5\<rparr>"

definition sample_parsed :: MutableMail where
  "sample_parsed = snd (MutableMail_Parse ref_libs (new_mutable_mail (Some sample_payload)))"

definition sample_listener :: listener where
  "sample_listener = \<lparr>listener_fd = 5, listener_max_size = 16777216, listener_handler = LFunction ''handler''\<rparr>"

lemma sample_fits: "length (array_bytes (Some sample_payload)) \<le> unat (listener_max_size sample_listener)"
  by (simp add: sample_payload_def sample_listener_def array_bytes_def)

definition sample_conn :: "action_type \<Rightarrow> connection" where
  "sample_conn t = connection_new ref_libs sample_listener 0 sample_peer Map.empty [sample_action t]"

definition sample_lua :: "action_type \<Rightarrow> connection" where
  "sample_lua t = mail_accepted ref_libs sample_env sample_parsed (sample_conn t)"

lemma sample_parse:
  "MutableMail_Parse ref_libs (new_mutable_mail (Some sample_payload)) = (SUCCESS, sample_parsed)"
proof -
  have "fst (MutableMail_Parse ref_libs (new_mutable_mail (Some sample_payload))) = SUCCESS"
    by code_simp
  then show ?thesis
    by (simp add: sample_parsed_def prod_eq_iff)
qed

lemma sample_mail_fields:
  "message sample_parsed = '' m''" "sender sample_parsed = ''a@b''"
  "recipients sample_parsed = [''c@d'']" "headers sample_parsed = []"
  "buffer sample_parsed = Some sample_payload" "account sample_parsed = []"
  by code_simp+

lemma sample_start: "t \<noteq> UNDEFINED \<Longrightarrow> conn_trace ref_libs [] (sample_conn t)"
  unfolding sample_conn_def
  by (rule conn_trace.start)
    (simp_all add: heap_ok_def sample_action_def action_ok_def IsDefined_def exec_ok_def
      MAX_EXEC_def MAX_ENV_def)

lemma sample_request:
  "conn_step ref_libs sample_env (EvRequest (Some sample_payload)) (sample_conn t) = Inr (sample_lua t)"
  using OnRequest_success [OF _ sample_parse] by (simp add: sample_conn_def connection_new_def sample_lua_def)

lemma sample_lua_trace:
  "t \<noteq> UNDEFINED \<Longrightarrow> conn_trace ref_libs [EvRequest (Some sample_payload)] (sample_lua t)"
  using conn_trace.step [OF sample_start _ sample_request] sample_fits
  by (simp add: sample_conn_def connection_new_def)

lemma sample_lua_fields [simp]:
  "state (sample_lua t) = LUA" "destroyed (sample_lua t) = False" "lua_running (sample_lua t) = True"
  "mail_ptr (sample_lua t) = Some 0" "lua_actions (sample_lua t) = [sample_action t]"
  "relay_timeout (sample_lua t) = None" "relay_operation (sample_lua t) = None"
  "conn_peer (sample_lua t) = sample_peer" "responses (sample_lua t) = []" "killed (sample_lua t) = 0"
  "lua_heap (sample_lua t) 0 = Some (NewIncomingMail (received_mail ref_libs sample_parsed) sample_peer)"
  by (simp_all add: sample_lua_def mail_accepted_def sample_conn_def connection_new_def
      sample_env_def NewLuaMail_def)

lemma sample_action_enabled: "conn_enabled E (sample_lua t) (EvLuaFinished (LAction (sample_action t)))"
  by simp

lemma sample_may_answer:
  "s \<notin> {INIT, END} \<Longrightarrow> may_answer (sample_lua t\<lparr>lua_running := False, state := s\<rparr>)"
  by (simp add: may_answer_def may_end_def)

lemma sample_discard:
  "conn_step ref_libs sample_env (EvLuaFinished (LAction (sample_action DISCARD))) (sample_lua DISCARD) =
    Inr (ended ref_libs sample_env ''discarded'' [''Kdiscarded'']
      (sample_lua DISCARD\<lparr>lua_running := False, state := NOT_RELAYING\<rparr>))"
  using Finish_eq [OF sample_may_answer [of NOT_RELAYING DISCARD], of "''Kdiscarded''"]
  by (simp add: OnLuaFinished_def CheckLuaAction_def Do_def) (simp add: sample_action_def)

lemma sample_discard_trace:
  "conn_trace ref_libs [EvRequest (Some sample_payload), EvLuaFinished (LAction (sample_action DISCARD))]
    (ended ref_libs sample_env ''discarded'' [''Kdiscarded'']
      (sample_lua DISCARD\<lparr>lua_running := False, state := NOT_RELAYING\<rparr>))"
  using conn_trace.step [OF sample_lua_trace sample_action_enabled sample_discard] by simp

text \<open>The same mail given to a child that talks QMQP.\<close>

definition sample_child :: ExecRelay where
  "sample_child =
     (let mail = NewIncomingMail (received_mail ref_libs sample_parsed) sample_peer
      in client_Request (ExecRelay_new ref_libs mail (AssembleHeaders ref_libs sample_peer mail)
           \<lparr>spawned := Some (sample_spawn [(10, 0), (13, 1)]), pidfd := True, client_fds := Some (11, 12)\<rparr>))"

definition sample_relaying :: connection where
  "sample_relaying =
     relaying (sample_action EXEC) (Exec sample_child) (sample_lua EXEC\<lparr>lua_running := False\<rparr>)"

lemma sample_child_fields [simp]: "pidfd sample_child" "client_request sample_child \<noteq> None"
  by (simp_all add: sample_child_def Let_def client_Request_def)

lemma sample_exec_step:
  "conn_step ref_libs sample_env (EvLuaFinished (LAction (sample_action EXEC))) (sample_lua EXEC) =
    Inr sample_relaying"
  by (simp add: OnLuaFinished_def CheckLuaAction_def Do_def sample_relaying_def
      relaying_def sample_child_def Let_def)
    (simp add: sample_action_def DoExec_def schedule_timeout_eq finish_start_def
      ExecRelay_Start_def sample_env_def Let_def prepare_spawn_def fill_array_eq MAX_EXEC_def
      MAX_ENV_def c_str_def)

lemma sample_relaying_trace:
  "conn_trace ref_libs [EvRequest (Some sample_payload), EvLuaFinished (LAction (sample_action EXEC))]
    sample_relaying"
  using conn_trace.step [OF sample_lua_trace sample_action_enabled sample_exec_step] by simp

lemma sample_relaying_fields [simp]:
  "destroyed sample_relaying = False" "relay_operation sample_relaying = Some (Exec sample_child)"
  "relay_timeout sample_relaying = Some 5"
  by (simp_all add: sample_relaying_def relaying_def sample_action_def)

text \<open>What stands behind an acceptance, for a whole trace.\<close>

lemma accept_evidence:
  assumes "libs_ok L" and "conn_trace L es c" and "s \<in> set (responses c)" and "hd s = CHR ''K''"
  shows "s = ''Kdiscarded'' \<and> (\<exists>a. EvLuaFinished (LAction a) \<in> set es \<and> type a = DISCARD) \<or>
    relay_evidence {r. EvRelay r \<in> set es} s"
  using assms(2,3)
proof (induction rule: conn_trace.induct)
  case (start h as t p)
  then show ?case
    by (simp add: connection_new_def)
next
  case (interfere es c h as)
  then show ?case
    by simp
next
  case (step es c0 E e c)
  have c0: "alive L c0" "turns L E e c0 c"
    using trace_turns [OF assms(1) step.hyps] by auto
  then have old: "responses c0 = []"
    by (simp add: alive_def)
  have said: "s = t" if "answers L E t c1 c" for t c1
    using that step.prems by (auto simp: answers_def ending_def)
  from c0(2) show ?case
  proof (cases rule: turns.cases)
    case (request_bad payload res mail)
    with said [OF request_bad(5)] assms(4) show ?thesis
      by (cases res) (auto simp: parse_answer_def)
  next
    case (action k m a)
    from action(7) show ?thesis
    proof (cases rule: action_outcome_cases)
      case (answered c1 t)
      with said [OF answered(1)] assms(4) action(1) show ?thesis
        by auto
    next
      case (relays r)
      with step.prems old show ?thesis
        by (simp add: relaying_def)
    qed
  next
    case (relay_calls r ev r' call)
    with said [OF relay_calls(7)] assms(4) call_ok_K [OF relay_calls(6)] have call: "call = RelayResponse s"
      by auto
    have events: "{r. EvRelay r \<in> set (es @ [e])} = set (relay_events es @ [ev])"
      using relay_calls(1) by (auto simp: relay_events_set)
    have "relay_from L (relay_events es) r"
      using trace_history [OF assms(1) step.hyps(1)] alive_simps(1) [OF c0(1)] relay_calls(3)
      by (simp add: history_def)
    from relay_from_accept [OF this relay_calls(4)] relay_calls(5) call show ?thesis
      using call_ok_nonempty [OF relay_calls(6)] unfolding events by auto
  qed (use step.prems assms(4) old said in \<open>auto simp: mail_accepted_def\<close>)
qed

text \<open>Every end of a connection, with what was going on.\<close>

lemma relaying_rank [simp]: "RELAYING \<le> s \<longleftrightarrow> s = RELAYING \<or> s = END"
  by (cases s) (simp_all add: less_eq_conn_state_def)

lemma turns_end:
  assumes "alive L c" and "turns L E e c c'" and "destroyed c'"
  shows "\<exists>c0 rs. c' = ended L E (final_words e c') rs c0 \<and> mail_ptr c0 = mail_ptr c \<and>
    lua_heap c0 = lua_heap c \<and> datagrams c0 = [] \<and> start_time c0 = start_time c \<and>
    (RELAYING \<le> state c0) = was_relayed e c"
proof -
  have old: "\<not> destroyed c" "datagrams c = []" "responses c = []" "state c \<noteq> END"
    using assms(1) alive_ending [OF assms(1)] by (auto simp: alive_def ending_def)
  have gen: ?thesis
    if "answers L E s c0 c'" "mail_ptr c0 = mail_ptr c" "lua_heap c0 = lua_heap c"
      "start_time c0 = start_time c" "(RELAYING \<le> state c0) = was_relayed e c" for s c0
  proof -
    have "final_words e c' = tl s" "c' = ended L E (tl s) [s] c0" "datagrams c0 = []"
      using that(1) by (auto simp: answers_def ending_def final_words_def)
    with that(2-5) show ?thesis
      by metis
  qed
  from assms(2) show ?thesis
  proof (cases rule: turns.cases)
    case (request_ok payload mail)
    with assms(3) old(1) show ?thesis by (simp add: mail_accepted_def)
  next
    case (request_bad payload res mail)
    then show ?thesis
      by (intro gen [OF request_bad(5)]) (simp_all add: was_relayed_def)
  next
    case (script call)
    with assms(3) old(1) show ?thesis by simp
  next
    case (action k m a)
    let ?c = "c\<lparr>lua_running := False\<rparr>"
    from action(7) show ?thesis
    proof (cases "type a \<in> {DISCARD, REJECT}")
      case True
      with action(7) obtain s where s: "answers L E s (?c\<lparr>state := NOT_RELAYING\<rparr>) c'"
        by (auto simp: action_outcome_def)
      from True action(1,2) show ?thesis
        by (intro gen [OF s]) (simp_all add: was_relayed_def)
    next
      case False
      with action(7) assms(3) old(1) obtain s r where s: "answers L E s (relaying a r ?c) c'"
        by (cases "type a") (auto simp: action_outcome_def relaying_def)
      from False action(1) show ?thesis
        by (intro gen [OF s]) (auto simp: was_relayed_def relaying_def)
    qed
  next
    case (no_action v)
    then show ?thesis
      by (intro gen [OF no_action(4)]) (auto simp: was_relayed_def CheckLuaAction_def)
  next
    case script_error
    then show ?thesis
      by (intro gen [OF script_error(3)]) (simp_all add: was_relayed_def)
  next
    case (relay_runs r ev r')
    with assms(3) old(1) show ?thesis by simp
  next
    case (relay_calls r ev r' call)
    then show ?thesis
      by (intro gen [OF relay_calls(7)]) (simp_all add: was_relayed_def)
  next
    case timeout
    then show ?thesis
      by (intro gen [OF timeout(3)]) (simp_all add: was_relayed_def)
  next
    case error
    with old show ?thesis
      by (intro exI [of _ c] exI [of _ "[]"]) (simp add: final_words_def was_relayed_def)
  next
    case disconnect
    with old show ?thesis
      by (intro exI [of _ c] exI [of _ "[]"]) (simp add: final_words_def was_relayed_def)
  qed
qed

section \<open>Properties\<close>

text \<open>C2: The callbacks implement the specification of a connection. In every state that can be
  reached, an event that can occur is handled without a failed assertion, without
  \<open>std::unreachable()\<close> and without access to a dead object, and its effect is one the
  specification \<open>turns\<close> allows; the only exception is the read error on the output pipe of a
  raw child that comes with a hang-up.\<close>

theorem conn_refines_spec:
  assumes "libs_ok L" and "conn_trace L es c" and "conn_enabled E c e" and "\<not> conn_hazard e"
  shows "\<exists>c'. conn_step L E e c = Inr c' \<and> turns L E e c c'"
  using step_turns [OF trace_alive [OF assms(1,2) enabled_alive [OF assms(3)]] assms(3)] assms(4)
  by (auto split: sum.splits)

theorem conn_refines_spec_witness:
  "\<exists>c'. conn_step ref_libs sample_env EvDisconnect (sample_lua EXEC) = Inr c' \<and>
    turns ref_libs sample_env EvDisconnect (sample_lua EXEC) c'"
  by (rule conn_refines_spec [OF ref_libs_ok sample_lua_trace]) simp_all

text \<open>C16: One answer at most. Until its end a connection has sent no response, no log datagram
  and terminated no child; afterwards it has sent at most one response, which starts
  with a QMQP code and has at most 256 bytes, whatever a child or the next server has said,
  and at most one datagram, and terminated at most one child.\<close>

theorem conn_answers_once:
  assumes "libs_ok L" and "conn_trace L es c"
  shows "(\<not> destroyed c \<longrightarrow> responses c = [] \<and> datagrams c = [] \<and> killed c = 0) \<and>
    length (responses c) \<le> 1 \<and> list_all good_response (responses c) \<and>
    length (datagrams c) \<le> 1 \<and> killed c \<le> 1"
  using trace_inv [OF assms] by (auto simp: alive_def dead_def split: if_splits)

theorem conn_answers_once_witness:
  "length (responses (ended ref_libs sample_env ''discarded'' [''Kdiscarded'']
      (sample_lua DISCARD\<lparr>lua_running := False, state := NOT_RELAYING\<rparr>))) \<le> 1"
  using conn_answers_once [OF ref_libs_ok sample_discard_trace] by blast

text \<open>A connection that has ended leaves nothing behind: no relay, no timer, no coroutine,
  and every mail object it created is stale, also for scripts that still hold it.\<close>

lemma conn_cleans_up:
  assumes "libs_ok L" and "conn_trace L es c" and "destroyed c"
  shows "relay_operation c = None \<and> relay_timeout c = None \<and> \<not> lua_running c \<and>
    (\<forall>k \<in> set (auto_close_list c). \<exists>m. lua_heap c k = Some m \<and> IsStale m)"
  using trace_dead [OF assms] by (auto simp: dead_def list_all_iff stale_in_def)

text \<open>The events that report the exit of a child.\<close>

fun is_exit_event :: "conn_event \<Rightarrow> bool" where
  "is_exit_event (EvRelay (ExecEvent e)) = is_child_exit e"
| "is_exit_event (EvRelay (RawEvent e)) = is_raw_exit e"
| "is_exit_event _ = False"

lemma relay_call_keeps_child:
  assumes "relay_inv r" and "relay_enabled r e" and "\<not> is_exit_event (EvRelay e)"
    and "relay_destroy r" and "relay_step e r = Finished u r' call"
  shows "relay_destroy r'"
  using assms
  by (cases r; cases e)
    (auto simp: map_relay_eqs ExecRelay_destroy_def RawExecRelay_destroy_def
      dest: exec.call_keeps_child raw.call_keeps_child)

text \<open>C20: No orphans. Whatever ends a connection whose relay owns a running child - the client,
  the timer, an error of the relay - the child is terminated, unless the event is the
  report of its own exit.\<close>

theorem conn_no_orphan:
  assumes "libs_ok L" and "conn_trace L es c" and "conn_enabled E c e"
    and "conn_step L E e c = Inr c'" and "destroyed c'"
    and "relay_operation c = Some r" and "relay_destroy r" and "\<not> is_exit_event e"
  shows "killed c' = 1"
proof -
  have c: "alive L c" "turns L E e c c'"
    using trace_turns [OF assms(1-4)] by auto
  then have old: "killed c = 0" and st: "state c = RELAYING"
    using assms(6) alive_simps(3) [OF c(1)] by (simp_all add: alive_def)
  have kill: "killed c' = 1" if "answers L E s c1 c'" "killed c1 = 0" "relay_operation c1 = Some r1"
    "relay_destroy r1" for s c1 r1
    using that by (simp add: answers_def relay_kills_def)
  from c(2) show ?thesis
  proof (cases rule: turns.cases)
    case (script call)
    with assms(5) c(1) show ?thesis by (simp add: alive_simps)
  next
    case (relay_runs r1 ev r')
    with assms(5) c(1) show ?thesis by (simp add: alive_simps)
  next
    case (relay_calls r1 ev r' call)
    have "relay_destroy r'"
      using relay_call_keeps_child [OF alive_simps(5) [OF c(1) relay_calls(3)] relay_calls(4) _ _
          relay_calls(5)] relay_calls(1,3) assms(6-8) by simp
    with relay_calls(7) old kill show ?thesis
      by auto
  next
    case timeout
    with old kill assms(6,7) show ?thesis by auto
  qed (use st old assms(6,7) in \<open>auto simp: relay_kills_def\<close>)
qed

theorem conn_no_orphan_witness:
  "\<exists>c'. conn_step ref_libs sample_env EvDisconnect sample_relaying = Inr c' \<and> killed c' = 1"
proof -
  have c: "alive ref_libs sample_relaying"
    using trace_alive [OF ref_libs_ok sample_relaying_trace] by simp
  then have "conn_step ref_libs sample_env EvDisconnect sample_relaying =
      Inr (ended ref_libs sample_env ''canceled'' [] sample_relaying)"
    by (simp add: OnDisconnect_eq [OF ending_may_end [OF alive_ending]])
  from conn_no_orphan [OF ref_libs_ok sample_relaying_trace _ this] this show ?thesis
    by (simp add: ExecRelay_destroy_def)
qed

text \<open>C21: The timeout works. While the relay is active and the timer is set, its expiry is
  handled: the client is told \<open>Ztimeout\<close> and nothing else, a child of the relay is terminated,
  and the connection is gone.\<close>

theorem conn_timeout:
  assumes "libs_ok L" and "conn_trace L es c" and "\<not> destroyed c"
    and "relay_timeout c = Some t" and "relay_operation c = Some r"
  shows "\<exists>c'. conn_step L E EvTimeout c = Inr c' \<and> destroyed c' \<and> responses c' = [''Ztimeout''] \<and>
    killed c' = (if relay_destroy r then 1 else 0)"
proof -
  have c: "alive L c"
    using trace_alive [OF assms(1-3)] .
  obtain c' where "conn_step L E EvTimeout c = Inr c'" "turns L E EvTimeout c c'"
    using step_turns [OF c, of E EvTimeout] assms(3,4) by (auto split: sum.splits)
  with c assms(5) show ?thesis
    by (auto simp: alive_def answers_def relay_kills_def elim!: turns_timeoutE)
qed

theorem conn_timeout_witness:
  "\<exists>c'. conn_step ref_libs sample_env EvTimeout sample_relaying = Inr c' \<and> destroyed c' \<and>
    responses c' = [''Ztimeout''] \<and> killed c' = 1"
  using conn_timeout [OF ref_libs_ok sample_relaying_trace, of 5 "Exec sample_child" sample_env]
  by (simp add: ExecRelay_destroy_def)

text \<open>C25: When the handler's action has been carried out and the connection goes on, it is
  relaying by the class that belongs to the action, and the timer is set exactly if the
  action has a positive timeout.\<close>

theorem conn_action:
  assumes "libs_ok L" and "conn_trace L es c"
    and "conn_enabled E c (EvLuaFinished (LAction a))"
    and "conn_step L E (EvLuaFinished (LAction a)) c = Inr c'" and "\<not> destroyed c'"
  shows "state c' = RELAYING \<and> relay_timeout c' = (if 0 < timeout a then Some (timeout a) else None) \<and>
    (case relay_operation c' of
       Some (Remote r) \<Rightarrow> type a = CONNECT \<and> connecting r = Some (connect a, 20)
     | Some (Exec r) \<Rightarrow> type a = EXEC \<and> (\<exists>fas. spawned r = Some (spawn_request_of a fas))
     | Some (RawExec r) \<Rightarrow> type a = EXEC_RAW \<and> (\<exists>fas. raw_spawned r = Some (spawn_request_of a fas))
     | None \<Rightarrow> False)"
proof -
  have c: "alive L c" "turns L E (EvLuaFinished (LAction a)) c c'"
    using trace_turns [OF assms(1-4)] by auto
  from c(2) show ?thesis
  proof (cases rule: turns.cases)
    case (action k m)
    from action(6) show ?thesis
    proof (cases rule: action_outcome_cases)
      case (answered c1 s)
      with assms(5) show ?thesis by (simp add: answers_def)
    next
      case (relays r)
      have "relay_timeout c = None"
        using alive_simps(4) [OF c(1)] action(1) by force
      with relays show ?thesis
        by (auto simp: relaying_def relay_started_def RemoteRelay_Start_def
            split: relay.splits dest: exec_Start_spawned raw_Start_spawned)
    qed
  next
    case no_action
    with assms(5) show ?thesis by (simp add: answers_def)
  qed
qed

theorem conn_action_witness:
  "state sample_relaying = RELAYING \<and> (\<exists>fas. spawned sample_child = Some (sample_spawn fas))"
  using conn_action [OF ref_libs_ok sample_lua_trace sample_action_enabled sample_exec_step]
  by (simp add: sample_action_def spawn_request_of_def c_str_def)

text \<open>C36: The headers of a relayed mail are those the handler inserted, newest first, and, if
  the client is a local process, one \<open>Received\<close> line at the end. It is a single line of at
  most 57 bytes, so the buffer of 256 bytes it is formatted into cannot overflow. There are
  at most 17 headers; so the request of a relay consists of at most 23 buffers and the input
  of a raw child of at most 18, which is what \<open>MAX_HEADERS\<close> is for: these lists are copied to
  arrays of a fixed size.\<close>

theorem AssembleHeaders_bounds:
  assumes "fmt_law L" and "netstring_generator_law L" and "mail_ok L m"
  shows "length (AssembleHeaders L p m) \<le> 17 \<and>
    take (length (headers m)) (AssembleHeaders L p m) = headers m \<and>
    (\<forall>h \<in> set (drop (length (headers m)) (AssembleHeaders L p m)).
       length h \<le> 57 \<and> (\<exists>t. h = t @ CRLF \<and> CR \<notin> set t \<and> LF \<notin> set t)) \<and>
    length (request (BasicRelay_new L m (AssembleHeaders L p m))) \<le> 23 \<and>
    length (request_buffer (RawExecRelay_new m (AssembleHeaders L p m))) \<le> 18"
proof -
  have hs: "length (AssembleHeaders L p m) \<le> 17"
    using assms(1,3) by (simp add: AssembleHeaders_eq mail_ok_def MAX_HEADERS_def)
  have "length (NetstringGenerator L (AssembleHeaders L p m @ [message m]) True) \<le> 20"
    using generator_length [OF assms(2), of "AssembleHeaders L p m @ [message m]"] hs by simp
  with hs assms(1,3) received_line_length [of p] received_line_single [of p] show ?thesis
    by (simp add: AssembleHeaders_eq BasicRelay_new_def RawExecRelay_new_def)
qed

theorem AssembleHeaders_bounds_witness:
  "length (AssembleHeaders ref_libs sample_peer sample_mail) \<le> 17 \<and>
    length (request (BasicRelay_new ref_libs sample_mail (AssembleHeaders ref_libs sample_peer sample_mail))) \<le> 23"
  using AssembleHeaders_bounds [OF libs_okD(8,5) [OF ref_libs_ok] sample_mail_ok] by blast

text \<open>C22: Logging. When a connection that has a mail ends, exactly one datagram is sent, unless
  there is no log socket, and a connection without a mail sends none. It is a submission;
  its message is the first 1024 bytes of a text that names the sender and all recipients
  and ends with the words of the response, or with the reason if there is none; account,
  time and duration are given; the size of the received request and the length with the
  inserted headers are those of the mail; and traffic is reported as sent exactly if a
  relay has been started or tried to start.\<close>

theorem conn_logs_once:
  assumes "libs_ok L" and "conn_trace L es c" and "conn_enabled E c e"
    and "conn_step L E e c = Inr c'" and "destroyed c'" and "message_limit_law L"
  shows "case mail_ptr c of
      None \<Rightarrow> datagrams c' = []
    | Some k \<Rightarrow> (\<exists>m. lua_heap c k = Some m \<and>
        (if log_defined E
         then \<exists>d. datagrams c' = [d] \<and> log_about L E c m (final_words e c') (was_relayed e c) d
         else datagrams c' = []))"
proof -
  have c: "alive L c" "turns L E e c c'"
    using trace_turns [OF assms(1-4)] by auto
  obtain c0 rs where c0: "c' = ended L E (final_words e c') rs c0" "mail_ptr c0 = mail_ptr c"
      "lua_heap c0 = lua_heap c" "datagrams c0 = []" "start_time c0 = start_time c"
      "(RELAYING \<le> state c0) = was_relayed e c"
    using turns_end [OF c assms(5)] by blast
  show ?thesis
  proof (cases "mail_ptr c")
    case None
    with c0 have "log_entry L E (final_words e c') c0 = []"
      by (simp add: log_entry_def)
    then have "datagrams c' = []"
      using c0(4) ended_sel(12) [of L E "final_words e c'" rs c0] c0(1) by simp
    with None show ?thesis by simp
  next
    case (Some k)
    then obtain m where m: "lua_heap c k = Some m"
      using alive_ending [OF c(1)] by (auto simp: ending_def has_mail_def live_in_def)
    have "datagrams c' = log_entry L E (final_words e c') c0"
      using c0(4) ended_sel(12) [of L E "final_words e c'" rs c0] c0(1) by simp
    with Some m c0 log_entry_about [OF assms(1,6), of c0 k m E "final_words e c'"] show ?thesis
      by (cases "log_defined E") (auto simp: log_about_def)
  qed
qed

theorem conn_logs_once_witness:
  "\<exists>d. datagrams (ended ref_libs sample_env ''discarded'' [''Kdiscarded'']
      (sample_lua DISCARD\<lparr>lua_running := False, state := NOT_RELAYING\<rparr>)) = [d] \<and>
    log_about ref_libs sample_env (sample_lua DISCARD)
      (NewIncomingMail (received_mail ref_libs sample_parsed) sample_peer) ''discarded'' False d \<and>
    dg_message d = ''from=<a@b> to=<c@d> discarded''"
proof -
  let ?m = "NewIncomingMail (received_mail ref_libs sample_parsed) sample_peer"
  have "sender ?m = ''a@b''" "recipients ?m = [''c@d'']"
    using sample_mail_fields by (simp_all add: NewIncomingMail_def received_mail_def MutableMail.extend_def)
  then have "take 1024 (log_text ?m ''discarded'') = ''from=<a@b> to=<c@d> discarded''"
    by (simp add: log_text_def)
  then have words: "dg_message d = ''from=<a@b> to=<c@d> discarded''"
      if "log_about ref_libs sample_env (sample_lua DISCARD) ?m ''discarded'' False d" for d
    using that
    by (simp add: log_about_def)
  have "\<exists>d. datagrams (ended ref_libs sample_env ''discarded'' [''Kdiscarded'']
      (sample_lua DISCARD\<lparr>lua_running := False, state := NOT_RELAYING\<rparr>)) = [d] \<and>
    log_about ref_libs sample_env (sample_lua DISCARD) ?m ''discarded'' False d"
    using conn_logs_once [OF ref_libs_ok sample_lua_trace sample_action_enabled sample_discard _ ref_message_limit_law]
    by (simp add: sample_env_def final_words_def was_relayed_def sample_action_def)
  with words show ?thesis
    by blast
qed

text \<open>C37: A timeout option is checked to be a positive number of seconds, yet one that is below
  half a nanosecond passes the check, becomes zero by the conversion to the clock's unit, and
  then the timer is never set: such a relay has no timeout at all. From one nanosecond on, an
  accepted timeout does set the timer.\<close>

theorem timeout_option:
  assumes "duration_law L" and "0 < q" and "q \<le> 3600" and "isnormal (Finite q)"
  shows "\<exists>b. collect_timeout L (LNumber (Finite q)) a = Inr b \<and>
    (1 / 10 ^ 9 \<le> q \<longrightarrow> relay_timeout (schedule_timeout b c) = Some (duration_cast L q)) \<and>
    (q < 1 / (2 * 10 ^ 9) \<longrightarrow> relay_timeout (schedule_timeout b c) = relay_timeout c)"
  using assms by (auto simp: collect_timeout_def lua_tonumber_def schedule_timeout_def duration_law_def)

theorem timeout_option_witness:
  "\<exists>b. collect_timeout ref_libs (LNumber (Finite (1 / 10 ^ 10))) new_action = Inr b \<and>
    relay_timeout (schedule_timeout b (sample_conn EXEC)) = None"
  using timeout_option [of ref_libs "1 / 10 ^ 10" new_action "sample_conn EXEC"]
  by (simp add: isnormal_def sample_conn_def connection_new_def)

text \<open>C24: The answer to a request that cannot be parsed names the reason, and the handler never
  sees the mail; a request that can be parsed gets no answer yet: the connection waits for
  the handler, which is given a live mail object with the received content.\<close>

theorem conn_request:
  assumes "libs_ok L" and "conn_trace L es c" and "conn_enabled E c (EvRequest payload)"
    and "conn_step L E (EvRequest payload) c = Inr c'"
    and "MutableMail_Parse L (new_mutable_mail payload) = (res, mail)"
  shows "(case res of
      MALFORMED \<Rightarrow> destroyed c' \<and> responses c' = [''Dmalformed input''] \<and> auto_close_list c' = []
    | BAD_ADDRESS \<Rightarrow> destroyed c' \<and> responses c' = [''Dbad address''] \<and> auto_close_list c' = []
    | TOO_MANY_RECIPIENTS \<Rightarrow>
        destroyed c' \<and> responses c' = [''Dtoo many recipients''] \<and> auto_close_list c' = []
    | SUCCESS \<Rightarrow> \<not> destroyed c' \<and> state c' = LUA \<and> lua_running c' \<and> responses c' = [] \<and>
        (\<exists>k m. mail_ptr c' = Some k \<and> auto_close_list c' = [k] \<and> lua_heap c' k = Some m \<and>
          \<not> IsStale m \<and> mail_ok L m \<and> message m = StripLeft L (message mail) \<and>
          sender m = sender mail \<and> recipients m = recipients mail))"
proof -
  have c: "alive L c" "turns L E (EvRequest payload) c c'"
    using trace_turns [OF assms(1-4)] by auto
  then have INIT: "state c = INIT" "auto_close_list c = []" "responses c = []" "\<not> destroyed c"
    using assms(3) by (auto simp: alive_def waiting_def)
  from c(2) show ?thesis
  proof (cases rule: turns.cases)
    case (request_ok mail')
    then have "alive L c'"
      using alive_LUA [OF libs_okD(1,2) [OF assms(1)] c(1)] by auto
    with request_ok INIT assms(5) received_mail_ok [OF libs_okD(1,2) [OF assms(1)], of payload mail "conn_peer c"]
    show ?thesis
      by (simp add: mail_accepted_def NewLuaMail_def NewIncomingMail_fields)
        (simp add: received_mail_def NewIncomingMail_def MutableMail.extend_def)
  next
    case (request_bad res' mail')
    then have "destroyed c'" "responses c' = [parse_answer res]" "auto_close_list c' = []" "res \<noteq> SUCCESS"
      using INIT assms(5) by (auto simp: answers_def)
    then show ?thesis
      by (cases res) (simp_all add: parse_answer_def)
  qed
qed

theorem conn_request_witness:
  "lua_running (sample_lua EXEC) \<and>
    (\<exists>m. lua_heap (sample_lua EXEC) 0 = Some m \<and> message m = ''m'' \<and> recipients m = [''c@d''])"
proof -
  have "StripLeft ref_libs '' m'' = ''m''"
    by code_simp
  then show ?thesis
    using conn_request [OF ref_libs_ok sample_start [of EXEC] _ sample_request sample_parse]
      sample_mail_fields sample_fits
    by (simp add: sample_conn_def connection_new_def)
qed

end
