(* ===== verification/Server.thy ===== *)
theory Server
  imports ConnectionProps
begin

text \<open>
  All connections of a server. They run in one process and share one Lua state
  (\<open>src/Instance.hxx\<close>): the heap of mail objects and the action objects. Their events are
  interleaved arbitrarily. Each connection sees the shared state; what the others do to it is
  within what a connection can rely on, so that everything proved of the traces of one
  connection holds in the server.
\<close>

section \<open>The server\<close>

text \<open>Connections are numbered in the order they come; a deleted one stays in the map as the
  record of what it has done.\<close>

record server =
  srv_listeners :: "listener list"
  srv_heap :: lua_heap
  srv_actions :: "Action list"
  conns :: "nat \<rightharpoonup> connection"

definition attach :: "server \<Rightarrow> connection \<Rightarrow> connection" where
  "attach s c = c\<lparr>lua_heap := srv_heap s, lua_actions := srv_actions s\<rparr>"

datatype server_event = Accept listener nat int peer_auth | Conn nat conn_event

text \<open>\<open>QmqpRelayListener\<close> creates a connection for each client.\<close>

definition server_accept :: "libs \<Rightarrow> listener \<Rightarrow> nat \<Rightarrow> int \<Rightarrow> peer_auth \<Rightarrow> server \<Rightarrow> server" where
  "server_accept L l i now p s =
     s\<lparr>conns := (conns s)(i \<mapsto> connection_new L l now p (srv_heap s) (srv_actions s))\<rparr>"

definition server_conn :: "libs \<Rightarrow> conn_env \<Rightarrow> nat \<Rightarrow> conn_event \<Rightarrow> server \<Rightarrow> crash + server" where
  "server_conn L E i e s =
     (case conns s i of
        None \<Rightarrow> Inl UseAfterFree
      | Some c \<Rightarrow>
          and_then (conn_step L E e (attach s c)) (\<lambda>c'.
          Inr (s\<lparr>srv_heap := lua_heap c', srv_actions := lua_actions c', conns := (conns s)(i \<mapsto> c')\<rparr>)))"

fun server_step :: "libs \<Rightarrow> conn_env \<Rightarrow> server_event \<Rightarrow> server \<Rightarrow> crash + server" where
  "server_step L E (Accept l i now p) s = Inr (server_accept L l i now p s)"
| "server_step L E (Conn i e) s = server_conn L E i e s"

fun server_enabled :: "conn_env \<Rightarrow> server \<Rightarrow> server_event \<Rightarrow> bool" where
  "server_enabled E s (Accept l i now p) = (l \<in> set (srv_listeners s) \<and> conns s i = None)"
| "server_enabled E s (Conn i e) =
     (case conns s i of None \<Rightarrow> False | Some c \<Rightarrow> conn_enabled E (attach s c) e)"

fun server_hazard :: "server_event \<Rightarrow> bool" where
  "server_hazard (Conn i e) = conn_hazard e"
| "server_hazard _ = False"

inductive server_trace :: "libs \<Rightarrow> server_event list \<Rightarrow> server \<Rightarrow> bool" for L where
  start: "list_all action_ok as \<Longrightarrow>
    server_trace L [] \<lparr>srv_listeners = ls, srv_heap = Map.empty, srv_actions = as, conns = Map.empty\<rparr>"
| step: "server_trace L es s \<Longrightarrow> server_enabled E s e \<Longrightarrow> server_step L E e s = Inr s' \<Longrightarrow>
    server_trace L (es @ [e]) s'"

text \<open>The events of one connection.\<close>

fun own_event :: "nat \<Rightarrow> server_event \<Rightarrow> conn_event list" where
  "own_event i (Conn j e) = (if j = i then [e] else [])"
| "own_event i _ = []"

definition events_of :: "nat \<Rightarrow> server_event list \<Rightarrow> conn_event list" where
  "events_of i es = concat (map (own_event i) es)"

lemma events_of_simps [simp]:
  "events_of i [] = []"
  "events_of i (es @ [e]) = events_of i es @ own_event i e"
  by (simp_all add: events_of_def)

lemma events_of_set: "e \<in> set (events_of i es) \<longleftrightarrow> Conn i e \<in> set es"
proof -
  have "e \<in> set (own_event i x) \<longleftrightarrow> x = Conn i e" for x
    by (cases x) auto
  then show ?thesis
    by (auto simp: events_of_def)
qed

lemma attach_sel [simp]:
  "lua_heap (attach s c) = srv_heap s" "lua_actions (attach s c) = srv_actions s"
  "auto_close_list (attach s c) = auto_close_list c" "destroyed (attach s c) = destroyed c"
  "responses (attach s c) = responses c" "state (attach s c) = state c"
  "datagrams (attach s c) = datagrams c" "killed (attach s c) = killed c"
  by (simp_all add: attach_def)

section \<open>What a connection guarantees\<close>

text \<open>The objects a connection will close are those it has created: it takes a fresh cell for
  each. All others keep their content.\<close>

definition keeps :: "nat set \<Rightarrow> lua_heap \<Rightarrow> lua_heap \<Rightarrow> bool" where
  "keeps own h h' \<longleftrightarrow> (\<forall>k m. k \<notin> own \<longrightarrow> h k = Some m \<longrightarrow>
     (\<exists>m'. h' k = Some m' \<and> same_content m m'))"

definition guarantee :: "connection \<Rightarrow> connection \<Rightarrow> bool" where
  "guarantee c c' \<longleftrightarrow> dom (lua_heap c) \<subseteq> dom (lua_heap c') \<and>
     keeps (set (auto_close_list c)) (lua_heap c) (lua_heap c') \<and>
     (\<forall>k \<in> set (auto_close_list c') - set (auto_close_list c).
        lua_heap c k = None \<and> lua_heap c' k \<noteq> None)"

lemma foldr_close_dom [simp]: "dom (foldr close_mail ks h) = dom h"
  by (induction ks) simp_all

lemma foldr_close_other: "k \<notin> set ks \<Longrightarrow> foldr close_mail ks h k = h k"
  by (induction ks) (auto simp: close_mail_def split: option.splits)

lemma keeps_refl: "keeps own h h"
  by (simp add: keeps_def)

lemma guarantee_same:
  "lua_heap c' = lua_heap c \<Longrightarrow> auto_close_list c' = auto_close_list c \<Longrightarrow> guarantee c c'"
  by (simp add: guarantee_def keeps_refl)

lemma guarantee_ended:
  assumes "lua_heap c0 = lua_heap c" and "auto_close_list c0 = auto_close_list c"
  shows "guarantee c (ended L E msg rs c0)"
  using assms by (simp add: guarantee_def keeps_def foldr_close_other)

lemma guarantee_answers:
  "answers L E s c0 c' \<Longrightarrow> lua_heap c0 = lua_heap c \<Longrightarrow> auto_close_list c0 = auto_close_list c \<Longrightarrow>
    guarantee c c'"
  by (simp add: answers_def guarantee_ended)

lemma turns_guarantee:
  assumes "turns L E e c c'" and "conn_enabled E c e"
  shows "guarantee c c'"
  using assms(1)
proof (cases rule: turns.cases)
  case (request_ok payload mail)
  with assms(2) have "lua_heap c (fresh_cell E) = None"
    by simp
  with request_ok show ?thesis
    by (auto simp: guarantee_def keeps_def mail_accepted_def NewLuaMail_def)
next
  case (request_bad payload res mail)
  show ?thesis
    using guarantee_answers [OF request_bad(5)] by simp
next
  case (script call)
  have "keeps own (lua_heap c) (lua_heap c')" for own
    using lua_exec_after(3) script unfolding keeps_def run_lua_call_fields by (metis run_lua_call_fields(12))
  with script show ?thesis
    by (simp add: guarantee_def lua_exec_after(2))
next
  case (action k m a)
  from action(7) show ?thesis
  proof (cases rule: action_outcome_cases)
    case (answered c0 s)
    then show ?thesis
      using guarantee_answers [OF answered(1)] by simp
  next
    case (relays r)
    then show ?thesis
      by (simp add: guarantee_same relaying_def)
  qed
next
  case (no_action v)
  show ?thesis
    using guarantee_answers [OF no_action(4)] by simp
next
  case script_error
  show ?thesis
    using guarantee_answers [OF script_error(3)] by simp
next
  case (relay_runs r ev r')
  then show ?thesis
    by (simp add: guarantee_same)
next
  case (relay_calls r ev r' call)
  show ?thesis
    using guarantee_answers [OF relay_calls(7)] by simp
next
  case timeout
  show ?thesis
    using guarantee_answers [OF timeout(3)] by simp
qed (simp_all add: guarantee_ended)

text \<open>Outside of scripts the other objects are not touched at all.\<close>

lemma answers_other_cell:
  "answers L E s c0 c' \<Longrightarrow> lua_heap c0 = lua_heap c \<Longrightarrow> auto_close_list c0 = auto_close_list c \<Longrightarrow>
    k \<notin> set (auto_close_list c) \<Longrightarrow> lua_heap c' k = lua_heap c k"
  by (simp add: answers_def foldr_close_other)

lemma turns_other_cell:
  assumes "turns L E e c c'" and "conn_enabled E c e" and "\<forall>call. e \<noteq> EvLua call"
    and "k \<notin> set (auto_close_list c)" and "lua_heap c k \<noteq> None"
  shows "lua_heap c' k = lua_heap c k"
  using assms(1)
proof (cases rule: turns.cases)
  case (request_ok payload mail)
  with assms(2,5) show ?thesis
    by (auto simp: mail_accepted_def NewLuaMail_def)
next
  case (action q m a)
  from action(7) show ?thesis
  proof (cases rule: action_outcome_cases)
    case (answered c0 s)
    with answers_other_cell [OF answered(1), where c = c and k = k] assms(4) show ?thesis by simp
  next
    case (relays r)
    then show ?thesis by (simp add: relaying_def)
  qed
qed (use assms(3,4) in \<open>auto simp: foldr_close_other dest: answers_other_cell\<close>)

section \<open>The invariant of the server\<close>

text \<open>Each connection, with its view of the shared state, has a trace of its own events; no mail
  object belongs to two connections.\<close>

definition server_inv :: "libs \<Rightarrow> server_event list \<Rightarrow> server \<Rightarrow> bool" where
  "server_inv L es s \<longleftrightarrow> heap_ok L (srv_heap s) \<and> list_all action_ok (srv_actions s) \<and>
     (\<forall>i c. conns s i = Some c \<longrightarrow> conn_trace L (events_of i es) (attach s c) \<and>
        set (auto_close_list c) \<subseteq> dom (srv_heap s)) \<and>
     (\<forall>i. conns s i = None \<longrightarrow> events_of i es = []) \<and>
     (\<forall>i j c d. conns s i = Some c \<longrightarrow> conns s j = Some d \<longrightarrow> i \<noteq> j \<longrightarrow>
        set (auto_close_list c) \<inter> set (auto_close_list d) = {})"

lemma server_invD:
  assumes "server_inv L es s" and "conns s i = Some c"
  shows "conn_trace L (events_of i es) (attach s c)" and "set (auto_close_list c) \<subseteq> dom (srv_heap s)"
    and "conns s j = Some d \<Longrightarrow> i \<noteq> j \<Longrightarrow> set (auto_close_list c) \<inter> set (auto_close_list d) = {}"
  using assms unfolding server_inv_def by blast+

lemma attach_new [simp]:
  "attach s (connection_new L l t p (srv_heap s) (srv_actions s)) =
    connection_new L l t p (srv_heap s) (srv_actions s)"
  by (simp add: attach_def connection_new_def)

lemma attach_own:
  "attach (s\<lparr>srv_heap := lua_heap c, srv_actions := lua_actions c, conns := m\<rparr>) c = c"
  by (simp add: attach_def)

lemma attach_accept [simp]: "attach (server_accept L l i t p s) c = attach s c"
  by (simp add: attach_def server_accept_def)

lemma server_inv_accept:
  assumes "server_inv L es s" and "conns s i = None"
  shows "server_inv L (es @ [Accept l i t p]) (server_accept L l i t p s)"
proof -
  let ?c = "connection_new L l t p (srv_heap s) (srv_actions s)"
  have "conn_trace L [] ?c" "events_of i es = []"
    using assms by (auto simp: server_inv_def intro: conn_trace.start)
  moreover have "auto_close_list ?c = []"
    by (simp add: connection_new_def)
  moreover have "conns (server_accept L l i t p s) = (conns s)(i \<mapsto> ?c)"
    "srv_heap (server_accept L l i t p s) = srv_heap s" "srv_actions (server_accept L l i t p s) = srv_actions s"
    by (simp_all add: server_accept_def)
  ultimately show ?thesis
    using assms(1) by (auto simp: server_inv_def split: if_splits)
qed

lemma rely_of_guarantee:
  assumes "guarantee c c'" and "world_ok L c'" and "lua_heap d = lua_heap c"
    and "set (auto_close_list c) \<inter> set (auto_close_list d) = {}"
  shows "rely L d (lua_heap c') (lua_actions c')"
  using assms by (fastforce simp: rely_def world_ok_def guarantee_def keeps_def)

lemma server_inv_conn:
  assumes "libs_ok L" and inv: "server_inv L es s" and "conns s i = Some c"
    and "conn_enabled E (attach s c) e" and "conn_step L E e (attach s c) = Inr c'"
  shows "server_inv L (es @ [Conn i e])
    (s\<lparr>srv_heap := lua_heap c', srv_actions := lua_actions c', conns := (conns s)(i \<mapsto> c')\<rparr>)"
    (is "server_inv L _ ?s")
proof -
  note trace = server_invD(1) [OF inv assms(3)]
  have trace': "conn_trace L (events_of i es @ [e]) c'"
    using conn_trace.step [OF trace assms(4,5)] .
  have world: "world_ok L c'"
    using trace_inv [OF assms(1) trace'] by (auto simp: alive_def dead_def split: if_splits)
  have "guarantee (attach s c) c'"
    using turns_guarantee trace_turns [OF assms(1) trace assms(4,5)] assms(4) by blast
  then have g: "guarantee (attach s c) c'" "dom (srv_heap s) \<subseteq> dom (lua_heap c')"
    "\<And>k. k \<in> set (auto_close_list c') \<Longrightarrow> k \<notin> set (auto_close_list c) \<Longrightarrow>
      srv_heap s k = None \<and> lua_heap c' k \<noteq> None"
    by (auto simp: guarantee_def)
  have own: "set (auto_close_list c') \<subseteq> dom (lua_heap c')"
    using g(2,3) server_invD(2) [OF inv assms(3)] by blast
  have apart: "set (auto_close_list c') \<inter> set (auto_close_list d) = {}"
    if "conns s j = Some d" "j \<noteq> i" for j d
    using g(3) server_invD(2) [OF inv that(1)] server_invD(3) [OF inv assms(3) that(1)] that(2)
    by blast
  have other: "conn_trace L (events_of j es) (attach ?s d) \<and> set (auto_close_list d) \<subseteq> dom (lua_heap c')"
    if "conns s j = Some d" "j \<noteq> i" for j d
  proof
    have "rely L (attach s d) (lua_heap c') (lua_actions c')"
      using rely_of_guarantee [OF g(1) world, of "attach s d"]
        server_invD(3) [OF inv assms(3) that(1)] that(2) by simp
    from conn_trace.interfere [OF server_invD(1) [OF inv that(1)] this]
    show "conn_trace L (events_of j es) (attach ?s d)"
      by (simp add: attach_def)
    show "set (auto_close_list d) \<subseteq> dom (lua_heap c')"
      using g(2) server_invD(2) [OF inv that(1)] by blast
  qed
  show ?thesis
    unfolding server_inv_def
  proof (intro conjI allI impI)
    show "heap_ok L (srv_heap ?s)" "list_all action_ok (srv_actions ?s)"
      using world by (simp_all add: world_ok_def)
  next
    fix j d assume "conns ?s j = Some d"
    then show "conn_trace L (events_of j (es @ [Conn i e])) (attach ?s d)"
      and "set (auto_close_list d) \<subseteq> dom (srv_heap ?s)"
      using trace' own other [of j d] by (auto simp: attach_own split: if_splits)
  next
    fix j assume "conns ?s j = None"
    then show "events_of j (es @ [Conn i e]) = []"
      using inv by (auto simp: server_inv_def split: if_splits)
  next
    fix j k a b assume "conns ?s j = Some a" "conns ?s k = Some b" "j \<noteq> k"
    then show "set (auto_close_list a) \<inter> set (auto_close_list b) = {}"
      using apart server_invD(3) [OF inv, of j a k b] by (auto split: if_splits)
  qed
qed

lemma server_trace_inv:
  assumes "libs_ok L" and "server_trace L es s"
  shows "server_inv L es s"
  using assms(2)
proof (induction rule: server_trace.induct)
  case (start as ls)
  then show ?case
    by (simp add: server_inv_def heap_ok_def)
next
  case (step es s E e s')
  show ?case
  proof (cases e)
    case (Accept l i t p)
    with step server_inv_accept show ?thesis
      by auto
  next
    case (Conn i x)
    with step server_inv_conn [OF assms(1) step.IH] show ?thesis
      by (auto simp: server_conn_def and_then_Inr split: option.splits)
  qed
qed

lemma server_total:
  assumes "libs_ok L" and "server_trace L es s" and "server_enabled E s e" and "\<not> server_hazard e"
  shows "\<exists>s'. server_step L E e s = Inr s'"
proof (cases e)
  case (Conn i x)
  with assms(3) obtain c where c: "conns s i = Some c" "conn_enabled E (attach s c) x"
    by (auto split: option.splits)
  have "alive L (attach s c)"
    using trace_alive [OF assms(1) server_invD(1) [OF server_trace_inv [OF assms(1,2)] c(1)]]
      enabled_alive [OF c(2)] by simp
  then obtain c' where "conn_step L E x (attach s c) = Inr c'"
    using step_turns [of L "attach s c" E x] c(2) Conn assms(4) by (auto split: sum.splits)
  with Conn c(1) show ?thesis
    by (simp add: server_conn_def)
qed simp

section \<open>A sample run\<close>

text \<open>One client is accepted, sends a mail, and its handler discards it.\<close>

abbreviation sample_server :: server where
  "sample_server \<equiv> \<lparr>srv_listeners = [sample_listener], srv_heap = Map.empty, srv_actions = [sample_action DISCARD], conns = Map.empty\<rparr>"

definition sample_accepted :: server where
  "sample_accepted = server_accept ref_libs sample_listener 0 0 sample_peer sample_server"

definition sample_received :: server where
  "sample_received = sample_accepted\<lparr>srv_heap := lua_heap (sample_lua DISCARD),
     srv_actions := lua_actions (sample_lua DISCARD), conns := (conns sample_accepted)(0 \<mapsto> sample_lua DISCARD)\<rparr>"

definition sample_end :: connection where
  "sample_end = ended ref_libs sample_env ''discarded'' [''Kdiscarded'']
     (sample_lua DISCARD\<lparr>lua_running := False, state := NOT_RELAYING\<rparr>)"

definition sample_finished :: server where
  "sample_finished = sample_received\<lparr>srv_heap := lua_heap sample_end, srv_actions := lua_actions sample_end,
     conns := (conns sample_received)(0 \<mapsto> sample_end)\<rparr>"

abbreviation sample_events :: "server_event list" where
  "sample_events \<equiv> [Accept sample_listener 0 0 sample_peer, Conn 0 (EvRequest (Some sample_payload)),
     Conn 0 (EvLuaFinished (LAction (sample_action DISCARD)))]"

lemma attach_sample:
  "conns sample_accepted 0 = Some (sample_conn DISCARD)"
  "attach sample_accepted (sample_conn DISCARD) = sample_conn DISCARD"
  "conns sample_received 0 = Some (sample_lua DISCARD)"
  "attach sample_received (sample_lua DISCARD) = sample_lua DISCARD"
  "conns sample_finished 0 = Some sample_end"
  "attach sample_finished sample_end = sample_end"
  by (simp_all add: sample_accepted_def server_accept_def sample_conn_def connection_new_def
      attach_def sample_received_def sample_finished_def sample_end_def)

lemma sample_accept_trace: "server_trace ref_libs [Accept sample_listener 0 0 sample_peer] sample_accepted"
proof -
  have "server_trace ref_libs [] sample_server"
    by (rule server_trace.start)
      (simp_all add: sample_action_def action_ok_def IsDefined_def)
  from server_trace.step [OF this, of sample_env "Accept sample_listener 0 0 sample_peer"] show ?thesis
    by (simp add: sample_accepted_def)
qed

lemma sample_received_trace:
  "server_trace ref_libs [Accept sample_listener 0 0 sample_peer, Conn 0 (EvRequest (Some sample_payload))] sample_received"
proof -
  have "server_step ref_libs sample_env (Conn 0 (EvRequest (Some sample_payload))) sample_accepted =
      Inr sample_received"
    using sample_request [of DISCARD] unfolding sample_received_def
    by (simp add: server_conn_def attach_sample)
  moreover have "server_enabled sample_env sample_accepted (Conn 0 (EvRequest (Some sample_payload)))"
    using sample_fits by (simp add: attach_sample) (simp add: sample_conn_def connection_new_def)
  ultimately show ?thesis
    using server_trace.step [OF sample_accept_trace] by fastforce
qed

lemma sample_finish_step:
  "server_enabled sample_env sample_received (Conn 0 (EvLuaFinished (LAction (sample_action DISCARD))))"
  "server_step ref_libs sample_env (Conn 0 (EvLuaFinished (LAction (sample_action DISCARD)))) sample_received =
    Inr sample_finished"
  using sample_discard unfolding sample_finished_def sample_end_def
  by (simp_all add: server_conn_def attach_sample)

lemma sample_finished_trace: "server_trace ref_libs sample_events sample_finished"
  using server_trace.step [OF sample_received_trace sample_finish_step] by simp

text \<open>A second client comes while the first one's handler runs.\<close>

definition sample_second :: server where
  "sample_second = server_accept ref_libs sample_listener 2 0 sample_peer sample_received"

lemma sample_second_trace:
  "server_trace ref_libs ([Accept sample_listener 0 0 sample_peer, Conn 0 (EvRequest (Some sample_payload))] @
     [Accept sample_listener 2 0 sample_peer]) sample_second"
  by (rule server_trace.step [OF sample_received_trace, of sample_env])
    (simp_all add: sample_second_def sample_received_def sample_accepted_def server_accept_def)

lemma sample_second_conns:
  "conns sample_second 0 = Some (sample_lua DISCARD)"
  "conns sample_second 2 = Some (connection_new ref_libs sample_listener 0 sample_peer (srv_heap sample_second) (srv_actions sample_second))"
  by (simp_all add: sample_second_def server_accept_def attach_sample)

section \<open>Properties\<close>

text \<open>C7: The connections of a server do not disturb each other. However the events of all
  clients are interleaved, every connection, with its view of the shared Lua state, has a
  trace of its own: its events alone, in their order. All that holds of the traces of a
  single connection therefore holds of each connection of the server.\<close>

theorem server_projects:
  assumes "libs_ok L" and "server_trace L es s" and "conns s i = Some c"
  shows "conn_trace L (events_of i es) (attach s c)"
  using server_invD(1) [OF server_trace_inv [OF assms(1,2)] assms(3)] .

theorem server_projects_witness:
  "conn_trace ref_libs [EvRequest (Some sample_payload), EvLuaFinished (LAction (sample_action DISCARD))] sample_end"
  using server_projects [OF ref_libs_ok sample_finished_trace attach_sample(5)]
  by (simp add: attach_sample events_of_def)

text \<open>C9: The server handles every event that can occur, of any connection in any reachable
  state, without going wrong, except for the known hazard of the raw relay.\<close>

theorem server_safe:
  assumes "libs_ok L" and "server_trace L es s" and "server_enabled E s e" and "\<not> server_hazard e"
  shows "\<exists>s'. server_step L E e s = Inr s'"
  using server_total [OF assms] .

theorem server_safe_witness:
  "\<exists>s'. server_step ref_libs sample_env (Conn 0 EvDisconnect) sample_received = Inr s'"
  by (rule server_safe [OF ref_libs_ok sample_received_trace]) (simp_all add: attach_sample)

text \<open>C1: In the whole server no client is told \<open>K\<close> without a reason that lies in the events of its
  own connection: its handler has discarded the mail, or its relay has the response of the
  next server, or the response of its child and the child's successful exit, or a raw child
  that has exited successfully.\<close>

theorem server_accept_evidence:
  assumes "libs_ok L" and "server_trace L es s" and "conns s i = Some c"
    and "t \<in> set (responses c)" and "hd t = CHR ''K''"
  shows "t = ''Kdiscarded'' \<and> (\<exists>a. Conn i (EvLuaFinished (LAction a)) \<in> set es \<and> type a = DISCARD) \<or>
    relay_evidence {r. Conn i (EvRelay r) \<in> set es} t"
  using accept_evidence [OF assms(1) server_invD(1) [OF server_trace_inv [OF assms(1,2)] assms(3)]]
    assms(4,5) by (simp add: events_of_set)

theorem server_accept_evidence_witness:
  "\<exists>a. Conn 0 (EvLuaFinished (LAction a)) \<in> set sample_events \<and> type a = DISCARD"
  using server_accept_evidence [OF ref_libs_ok sample_finished_trace attach_sample(5), of "''Kdiscarded''"]
  by (simp add: sample_end_def relay_evidence_def)

text \<open>C10: What one connection does, be it the end of its life, leaves every other one as it is: its
  record, and the content of the mail it is working on, which stays live. Only a script can
  touch the mail of another connection at all, and then only what scripts may change.\<close>

theorem server_isolation:
  assumes "libs_ok L" and "server_trace L es s" and "server_enabled E s (Conn i e)"
    and "server_step L E (Conn i e) s = Inr s'" and "conns s j = Some d" and "j \<noteq> i"
    and "k \<in> set (auto_close_list d)"
  shows "conns s' j = Some d \<and> (\<exists>m m'. srv_heap s k = Some m \<and> srv_heap s' k = Some m' \<and>
    same_content m m' \<and> ((\<forall>call. e \<noteq> EvLua call) \<longrightarrow> m' = m))"
proof -
  note inv = server_trace_inv [OF assms(1,2)]
  from assms(3,4) obtain c c' where c: "conns s i = Some c" "conn_enabled E (attach s c) e"
      "conn_step L E e (attach s c) = Inr c'" and s': "srv_heap s' = lua_heap c'"
      "conns s' = (conns s)(i \<mapsto> c')"
    by (auto simp: server_conn_def and_then_Inr split: option.splits)
  have t: "turns L E e (attach s c) c'"
    using trace_turns [OF assms(1) server_invD(1) [OF inv c(1)] c(2,3)] by simp
  have k: "k \<notin> set (auto_close_list c)" "k \<in> dom (srv_heap s)"
    using server_invD(3) [OF inv c(1) assms(5)] server_invD(2) [OF inv assms(5)] assms(6,7) by blast+
  then obtain m where m: "srv_heap s k = Some m"
    by blast
  have "keeps (set (auto_close_list c)) (srv_heap s) (lua_heap c')"
    using turns_guarantee [OF t c(2)] by (simp add: guarantee_def)
  then obtain m' where m': "lua_heap c' k = Some m'" "same_content m m'"
    using k(1) m unfolding keeps_def by blast
  have "m' = m" if "\<forall>call. e \<noteq> EvLua call"
    using turns_other_cell [OF t c(2) that, of k] k(1) m m'(1) by auto
  with m m' s' assms(5,6) show ?thesis
    by auto
qed

theorem server_isolation_witness:
  "\<exists>s'. server_step ref_libs sample_env (Conn 2 EvDisconnect) sample_second = Inr s' \<and>
    conns s' 0 = Some (sample_lua DISCARD) \<and> srv_heap s' 0 = srv_heap sample_second 0 \<and> srv_heap s' 0 \<noteq> None"
proof -
  have en: "server_enabled sample_env sample_second (Conn 2 EvDisconnect)"
    by (simp add: sample_second_conns) (simp add: connection_new_def)
  obtain s' where s': "server_step ref_libs sample_env (Conn 2 EvDisconnect) sample_second = Inr s'"
    using server_total [OF ref_libs_ok sample_second_trace en] by auto
  have "0 \<in> set (auto_close_list (sample_lua DISCARD))"
    by (simp add: sample_lua_def mail_accepted_def sample_env_def NewLuaMail_def)
  from server_isolation [OF ref_libs_ok sample_second_trace en s' sample_second_conns(1) _ this] s'
  show ?thesis
    by auto
qed

end
