(* ===== verification/Locality.thy ===== *)
theory Locality
  imports Server
begin

text \<open>
  What a callback reads and writes. Outside of scripts a callback of a connection depends on
  the shared Lua heap only through the mail objects the connection will close, and changes no
  others: replace the rest of the heap and the callback does the same, on the same objects,
  and leaves the replacement as it is. This is stated as an equation between results and
  proved along the structure of the callbacks.
\<close>

section \<open>Exchanging the rest of the heap\<close>

text \<open>The connection with its own objects in a heap \<open>h\<close> of others.\<close>

definition graft :: "lua_heap \<Rightarrow> Action list \<Rightarrow> connection \<Rightarrow> connection" where
  "graft h as c =
     c\<lparr>lua_heap := override_on h (lua_heap c) (set (auto_close_list c)), lua_actions := as\<rparr>"

definition mail_owned :: "connection \<Rightarrow> bool" where
  "mail_owned c \<longleftrightarrow> (\<forall>k. mail_ptr c = Some k \<longrightarrow> k \<in> set (auto_close_list c))"

lemma graft_sel [simp]:
  "state (graft h as c) = state c" "max_size (graft h as c) = max_size c"
  "start_time (graft h as c) = start_time c" "conn_peer (graft h as c) = conn_peer c"
  "lua_actions (graft h as c) = as" "lua_running (graft h as c) = lua_running c"
  "auto_close_list (graft h as c) = auto_close_list c" "mail_ptr (graft h as c) = mail_ptr c"
  "relay_operation (graft h as c) = relay_operation c" "relay_timeout (graft h as c) = relay_timeout c"
  "destroyed (graft h as c) = destroyed c" "responses (graft h as c) = responses c"
  "datagrams (graft h as c) = datagrams c" "killed (graft h as c) = killed c"
  "lua_heap (graft h as c) = override_on h (lua_heap c) (set (auto_close_list c))"
  by (simp_all add: graft_def)

lemma graft_update [simp]:
  "graft h as (c\<lparr>state := x1\<rparr>) = (graft h as c)\<lparr>state := x1\<rparr>"
  "graft h as (c\<lparr>lua_running := x2\<rparr>) = (graft h as c)\<lparr>lua_running := x2\<rparr>"
  "graft h as (c\<lparr>mail_ptr := x3\<rparr>) = (graft h as c)\<lparr>mail_ptr := x3\<rparr>"
  "graft h as (c\<lparr>relay_operation := x4\<rparr>) = (graft h as c)\<lparr>relay_operation := x4\<rparr>"
  "graft h as (c\<lparr>relay_timeout := x5\<rparr>) = (graft h as c)\<lparr>relay_timeout := x5\<rparr>"
  "graft h as (c\<lparr>destroyed := x6\<rparr>) = (graft h as c)\<lparr>destroyed := x6\<rparr>"
  "graft h as (c\<lparr>responses := x7\<rparr>) = (graft h as c)\<lparr>responses := x7\<rparr>"
  "graft h as (c\<lparr>datagrams := x8\<rparr>) = (graft h as c)\<lparr>datagrams := x8\<rparr>"
  "graft h as (c\<lparr>killed := x9\<rparr>) = (graft h as c)\<lparr>killed := x9\<rparr>"
  by (simp_all add: graft_def)

lemma graft_graft [simp]: "graft h as (graft h' as' c) = graft h as c"
  by (simp add: graft_def override_on_def cong: if_cong)

text \<open>A connection whose objects are already in the heap.\<close>

lemma graft_in:
  "(\<And>k. k \<in> set (auto_close_list c) \<Longrightarrow> h k = lua_heap c k) \<Longrightarrow>
    graft h as c = c\<lparr>lua_heap := h, lua_actions := as\<rparr>"
  by (cases c) (auto simp: graft_def override_on_def)

lemma graft_self: "graft (lua_heap c) (lua_actions c) c = c"
  by (simp add: graft_in)

text \<open>Two results that differ by the exchange only, with a connection that knows its mail.\<close>

definition local_at :: "lua_heap \<Rightarrow> Action list \<Rightarrow> conn_result \<Rightarrow> conn_result \<Rightarrow> bool" where
  "local_at h as x y \<longleftrightarrow>
     y = map_sum id (graft h as) x \<and> (\<forall>c. x = Inr c \<longrightarrow> mail_owned c)"

named_theorems local_intros

lemma local_Inl [local_intros]: "local_at h as (Inl e) (Inl e)"
  by (simp add: local_at_def)

lemma local_Inr [local_intros]: "mail_owned c \<Longrightarrow> graft h as c = d \<Longrightarrow> local_at h as (Inr c) (Inr d)"
  by (simp add: local_at_def)

lemma local_and_then:
  assumes "local_at h as x y" and "\<And>c. mail_owned c \<Longrightarrow> local_at h as (f c) (g (graft h as c))"
  shows "local_at h as (and_then x f) (and_then y g)"
  using assms by (cases x) (auto simp: local_at_def)

lemma mail_owned_update [simp]:
  "mail_owned (c\<lparr>state := x1\<rparr>) = mail_owned c" "mail_owned (c\<lparr>lua_running := x2\<rparr>) = mail_owned c"
  "mail_owned (c\<lparr>relay_operation := x4\<rparr>) = mail_owned c"
  "mail_owned (c\<lparr>relay_timeout := x5\<rparr>) = mail_owned c"
  "mail_owned (c\<lparr>destroyed := x6\<rparr>) = mail_owned c" "mail_owned (c\<lparr>responses := x7\<rparr>) = mail_owned c"
  "mail_owned (c\<lparr>datagrams := x8\<rparr>) = mail_owned c" "mail_owned (c\<lparr>killed := x9\<rparr>) = mail_owned c"
  "mail_owned (c\<lparr>lua_heap := h\<rparr>) = mail_owned c" "mail_owned (c\<lparr>mail_ptr := None\<rparr>)"
  "mail_owned (graft h as c) = mail_owned c"
  by (simp_all add: mail_owned_def)

lemma graft_mail [simp]:
  "mail_owned c \<Longrightarrow> mail_ptr c = Some k \<Longrightarrow> override_on h (lua_heap c) (set (auto_close_list c)) k = lua_heap c k"
  by (simp add: mail_owned_def)

section \<open>The callbacks are local\<close>

lemma log_datagram_graft [simp]: "log_datagram_of L E (graft h as c) m msg = log_datagram_of L E c m msg"
  by (simp add: log_datagram_of_def)

lemma local_Log [local_intros]:
  "mail_owned c \<Longrightarrow> local_at h as (Log L E msg c) (Log L E msg (graft h as c))"
  by (cases "mail_ptr c") (auto simp: Log_def intro!: local_intros split: option.splits)

lemma local_log_if_mail [local_intros]:
  "mail_owned c \<Longrightarrow> local_at h as (log_if_mail L E msg c) (log_if_mail L E msg (graft h as c))"
  by (simp add: log_if_mail_def local_intros)

lemma close_mail_at: "close_mail j h k = (if j = k then map_option Close (h k) else h k)"
  by (simp add: close_mail_def split: option.split)

lemma foldr_close_cong:
  "h k = h' k \<Longrightarrow> foldr close_mail ks h k = foldr close_mail ks h' k"
  by (induction ks) (simp_all add: close_mail_at)

lemma foldr_close_override:
  "foldr close_mail ks (override_on h g (set ks)) = override_on h (foldr close_mail ks g) (set ks)"
proof
  fix k
  show "foldr close_mail ks (override_on h g (set ks)) k = override_on h (foldr close_mail ks g) (set ks) k"
    by (cases "k \<in> set ks") (simp_all add: foldr_close_other foldr_close_cong [of "override_on h g (set ks)" k g])
qed

lemma graft_close: "graft h as (c\<lparr>lua_heap := foldr close_mail (auto_close_list c) (lua_heap c)\<rparr>) =
  (graft h as c)\<lparr>lua_heap := foldr close_mail (auto_close_list c) (lua_heap (graft h as c))\<rparr>"
  by (simp add: graft_def foldr_close_override)

lemma local_delete [local_intros]:
  "mail_owned c \<Longrightarrow> local_at h as (delete_connection L E c) (delete_connection L E (graft h as c))"
  unfolding delete_connection_def Let_def
  by (intro local_and_then local_intros) (simp_all add: graft_def foldr_close_override)

lemma local_OnError [local_intros]:
  "mail_owned c \<Longrightarrow> local_at h as (OnError L E c) (OnError L E (graft h as c))"
  unfolding OnError_def by (intro local_and_then local_intros)

lemma local_OnDisconnect [local_intros]:
  "mail_owned c \<Longrightarrow> local_at h as (OnDisconnect L E c) (OnDisconnect L E (graft h as c))"
  unfolding OnDisconnect_def by (rule local_intros)

lemma local_Finish [local_intros]:
  assumes "mail_owned c"
  shows "local_at h as (Finish L E s c) (Finish L E s (graft h as c))"
proof -
  have sent: "local_at h as (delete_connection L E (d\<lparr>responses := rs\<rparr>))
        (delete_connection L E ((graft h as d)\<lparr>responses := rs\<rparr>))"
      "local_at h as (OnError L E (d\<lparr>responses := rs\<rparr>)) (OnError L E ((graft h as d)\<lparr>responses := rs\<rparr>))"
    if "mail_owned d" for d rs
    using that local_delete [of "d\<lparr>responses := rs\<rparr>" h as L E]
      local_OnError [of "d\<lparr>responses := rs\<rparr>" h as L E] by simp_all
  show ?thesis
    using assms unfolding Finish_def Let_def graft_sel
    by (simp add: local_Inl) (intro impI local_and_then local_log_if_mail; simp add: sent)
qed

lemma local_call_handler [local_intros]:
  "mail_owned c \<Longrightarrow> local_at h as (call_handler (OnRelayResponse L E) (OnRelayError L E) call c)
    (call_handler (OnRelayResponse L E) (OnRelayError L E) call (graft h as c))"
  by (cases call) (simp_all add: OnRelayResponse_def OnRelayError_def local_Finish)

lemma override_new: "override_on h (g(k := x)) (insert k A) = (override_on h g A)(k := x)"
  by (auto simp: override_on_def)

lemma graft_accepted: "graft h as (mail_accepted L E mail c) = mail_accepted L E mail (graft h as c)"
  by (simp add: mail_accepted_def graft_def NewLuaMail_def override_new)

lemma local_OnRequest [local_intros]:
  assumes "mail_owned c"
  shows "local_at h as (OnRequest L E payload c) (OnRequest L E payload (graft h as c))"
proof (cases "state c = INIT")
  case True
  obtain res mail where parse: "MutableMail_Parse L (new_mutable_mail payload) = (res, mail)"
    by (cases "MutableMail_Parse L (new_mutable_mail payload)")
  show ?thesis
  proof (cases "res = SUCCESS")
    case ok: True
    have "mail_owned (mail_accepted L E mail c)"
      by (simp add: mail_owned_def mail_accepted_def)
    then show ?thesis
      using OnRequest_success [where payload = payload] True parse ok
      by (simp add: local_Inr graft_accepted)
  next
    case False
    with OnRequest_failure [OF _ parse False] True assms
      local_Finish [of "c\<lparr>state := RECEIVED\<rparr>" h as L E "parse_answer res"] show ?thesis
      by simp
  qed
qed (simp add: OnRequest_def local_Inl)

lemma local_finish_start:
  assumes "mail_owned c"
  shows "local_at h as (finish_start L E f out c) (finish_start L E f out (graft h as c))"
proof (cases out)
  case (Finished a r call)
  with assms local_call_handler [of "c\<lparr>relay_operation := Some (f r)\<rparr>" h as L E call] show ?thesis
    by (simp add: finish_start_def)
qed (use assms in \<open>simp_all add: finish_start_def local_intros\<close>)

lemma graft_schedule [simp]: "schedule_timeout a (graft h as c) = graft h as (schedule_timeout a c)"
  by (simp add: schedule_timeout_def)

lemma mail_owned_schedule [simp]: "mail_owned (schedule_timeout a c) = mail_owned c"
  by (simp add: schedule_timeout_def)

lemma local_relays:
  assumes "mail_owned c"
  shows "local_at h as (DoConnect L E a m c) (DoConnect L E a m (graft h as c))"
    and "local_at h as (DoExec L E a m c) (DoExec L E a m (graft h as c))"
    and "local_at h as (DoRawExec L E a m c) (DoRawExec L E a m (graft h as c))"
  using assms by (simp_all add: DoConnect_def DoExec_def DoRawExec_def Let_def local_finish_start)

lemma local_Do [local_intros]:
  assumes "mail_owned c"
  shows "local_at h as (Do L E a m c) (Do L E a m (graft h as c))"
  using assms local_relays [of "c\<lparr>state := RELAYING\<rparr>" h as L E a m]
    local_Finish [of "c\<lparr>state := NOT_RELAYING\<rparr>" h as L E]
  by (cases "type a") (simp_all add: Do_def local_Inl)

lemma local_OnLuaError [local_intros]:
  "mail_owned c \<Longrightarrow> local_at h as (OnLuaError L E c) (OnLuaError L E (graft h as c))"
  by (simp add: OnLuaError_def local_intros)

lemma local_OnLuaFinished [local_intros]:
  "mail_owned c \<Longrightarrow> local_at h as (OnLuaFinished L E v c) (OnLuaFinished L E v (graft h as c))"
  by (cases "mail_ptr c") (simp_all add: OnLuaFinished_def local_intros split: option.split)

lemma local_OnRelayEvent [local_intros]:
  assumes "mail_owned c"
  shows "local_at h as (OnRelayEvent L E e c) (OnRelayEvent L E e (graft h as c))"
proof (cases "relay_operation c")
  case (Some r)
  then show ?thesis
  proof (cases "relay_step e r")
    case (Finished u r' call)
    with Some assms local_call_handler [of "c\<lparr>relay_operation := Some r'\<rparr>" h as L E call] show ?thesis
      by (simp add: OnRelayEvent_def)
  qed (use assms in \<open>simp_all add: OnRelayEvent_def local_intros\<close>)
qed (simp add: OnRelayEvent_def local_intros)

section \<open>Scripts are local\<close>

text \<open>The object a function called from Lua works on is its first argument.\<close>

definition target :: "lua_value list \<Rightarrow> nat option" where
  "target args = (case arg args 1 of LMail k \<Rightarrow> Some k | _ \<Rightarrow> None)"

lemma override_upd: "k \<in> A \<Longrightarrow> override_on h (g(k := x)) A = (override_on h g A)(k := x)"
  by (auto simp: override_on_def)

lemma CastLuaMail_override:
  "set_option (target args) \<subseteq> A \<Longrightarrow> CastLuaMail args (override_on h g A) 1 = CastLuaMail args g 1"
  by (auto simp: CastLuaMail_def target_def split: lua_value.splits)

text \<open>A function that is given an object in \<open>A\<close> returns the same in any heap that has the same
  objects in \<open>A\<close>, and changes nothing else.\<close>

abbreviation in_heap :: "lua_heap \<Rightarrow> nat set \<Rightarrow> lua_result \<Rightarrow> lua_result" where
  "in_heap h A \<equiv> map_sum id (apsnd (\<lambda>g. override_on h g A))"

locale local_method =
  fixes f :: "lua_value list \<Rightarrow> lua_heap \<Rightarrow> lua_result"
  assumes local: "set_option (target args) \<subseteq> A \<Longrightarrow> f args (override_on h g A) = in_heap h A (f args g)"
begin

lemma after_local:
  "set_option (target args) \<subseteq> A \<Longrightarrow>
    heap_after (f args (override_on h g A)) (override_on h g A) = override_on h (heap_after (f args g) g) A"
  by (simp add: local heap_after_def split: sum.split)

end

lemma CastLuaMail_target: "CastLuaMail args g i = Inr (k, m) \<Longrightarrow> i = 1 \<Longrightarrow> target args = Some k"
  by (simp add: CastLuaMail_Inr target_def)

text \<open>The rules follow the structure of the C functions: the access to the object, the checks of
  the other arguments, the errors, and the results that change nothing or the object.\<close>

named_theorems in_heap_intros

lemma in_heap_cast [in_heap_intros]:
  assumes "set_option (target args) \<subseteq> A"
    and "\<And>k m. k \<in> A \<Longrightarrow> r k m = in_heap h A (q k m)"
  shows "and_then (CastLuaMail args (override_on h g A) 1) (\<lambda>(k, m). r k m) =
    in_heap h A (and_then (CastLuaMail args g 1) (\<lambda>(k, m). q k m))"
proof (cases "CastLuaMail args g 1")
  case (Inr p)
  then have "fst p \<in> A"
    using CastLuaMail_target [of args g 1 "fst p" "snd p"] assms(1) by simp
  with Inr assms show ?thesis
    by (cases p) (simp add: CastLuaMail_override [unfolded One_nat_def])
qed (simp add: CastLuaMail_override [unfolded One_nat_def] assms(1))

lemma in_heap_and_then [in_heap_intros]:
  "(\<And>a. r a = in_heap h A (q a)) \<Longrightarrow> and_then x r = in_heap h A (and_then x q)"
  by (cases x) simp_all

lemma in_heap_if [in_heap_intros]:
  "x = in_heap h A x' \<Longrightarrow> y = in_heap h A y' \<Longrightarrow> (if b then x else y) = in_heap h A (if b then x' else y')"
  by simp

lemma in_heap_option [in_heap_intros]:
  "x = in_heap h A x' \<Longrightarrow> (\<And>a. y a = in_heap h A (y' a)) \<Longrightarrow>
    (case opt of None \<Rightarrow> x | Some a \<Rightarrow> y a) = in_heap h A (case opt of None \<Rightarrow> x' | Some a \<Rightarrow> y' a)"
  by (cases opt) simp_all

lemma in_heap_results [in_heap_intros]:
  "Inl e = in_heap h A (Inl e)"
  "Inr (vs, override_on h g A) = in_heap h A (Inr (vs, g))"
  "k \<in> A \<Longrightarrow> Inr (vs, (override_on h g A)(k := x)) = in_heap h A (Inr (vs, g(k := x)))"
  by (simp_all add: override_upd)

interpretation insert_header_local: local_method "InsertHeader L" for L
  by unfold_locales (unfold InsertHeader_def Let_def, intro in_heap_intros)

interpretation methods_local: local_method "call_method L name" for L name
  by unfold_locales
    (unfold call_method_def NewConnectAction_def NewDiscardAction_def NewRejectAction_def
      NewExecAction_def NewExecRawAction_def Let_def,
     intro insert_header_local.local in_heap_intros)

interpretation attributes_local: local_method "Index L cgroup" for L cgroup
  by unfold_locales (unfold Index_def Let_def, intro in_heap_intros)

interpretation assignment_local: local_method "NewIndex L" for L
  by unfold_locales (unfold NewIndex_def Let_def, intro in_heap_intros)

fun call_target :: "lua_call \<Rightarrow> nat option" where
  "call_target (CallMethod name args) = target args"
| "call_target (GetAttribute cgroup args) = target args"
| "call_target (SetAttribute args) = target args"

lemma lua_exec_local:
  assumes "set_option (call_target call) \<subseteq> A"
  shows "lua_exec L call (override_on h g A) = in_heap h A (lua_exec L call g)"
  using assms by (cases call)
    (simp_all add: methods_local.local attributes_local.local assignment_local.local)

lemma new_actions_in_heap: "new_actions call (in_heap h A r) = new_actions call r"
  by (cases "(call, r)" rule: new_actions.cases) auto

section \<open>A step of a connection is local\<close>

text \<open>Which objects the caller of a script has to own, and which actions the script creates.\<close>

fun own_objects :: "conn_event \<Rightarrow> connection \<Rightarrow> bool" where
  "own_objects (EvLua call) c \<longleftrightarrow> set_option (call_target call) \<subseteq> set (auto_close_list c)"
| "own_objects _ c \<longleftrightarrow> True"

fun created :: "libs \<Rightarrow> conn_event \<Rightarrow> connection \<Rightarrow> Action list" where
  "created L (EvLua call) c = new_actions call (lua_exec L call (lua_heap c))"
| "created L _ c = []"

lemma run_lua_call_local:
  assumes "mail_owned c" and "own_objects (EvLua call) c"
  shows "local_at h (as @ created L (EvLua call) c) (Inr (run_lua_call L call c))
    (Inr (run_lua_call L call (graft h as c)))"
proof (rule local_Inr)
  show "mail_owned (run_lua_call L call c)"
    using assms(1) by (simp add: mail_owned_def)
  have "lua_exec L call (lua_heap (graft h as c)) =
      in_heap h (set (auto_close_list c)) (lua_exec L call (lua_heap c))"
    using lua_exec_local assms(2) by simp
  then show "graft h (as @ created L (EvLua call) c) (run_lua_call L call c) = run_lua_call L call (graft h as c)"
    by (simp add: run_lua_call_def Let_def graft_def new_actions_in_heap heap_after_def split: sum.split)
qed

lemma conn_step_local:
  assumes "mail_owned c" and "own_objects e c"
  shows "local_at h (as @ created L e c) (conn_step L E e c) (conn_step L E e (graft h as c))"
proof (cases e)
  case (EvLua call)
  with run_lua_call_local assms show ?thesis by simp
next
  case (EvLuaFinished v)
  with assms local_OnLuaFinished [of "c\<lparr>lua_running := False\<rparr>" h as L E v] show ?thesis by simp
next
  case EvLuaError
  with assms local_OnLuaError [of "c\<lparr>lua_running := False\<rparr>" h as L E] show ?thesis by simp
next
  case EvTimeout
  with assms local_Finish [of "c\<lparr>relay_timeout := None\<rparr>" h as L E] show ?thesis
    by (simp add: OnRelayTimeout_def)
qed (use assms in \<open>simp_all add: local_intros\<close>)

text \<open>The frame: grafting a connection onto its own heap is no change, so the objects it does not
  own are those of before, and the actions are those of before and the new ones.\<close>

lemma conn_step_frame:
  assumes "mail_owned c" and "own_objects e c" and "conn_step L E e c = Inr c'"
  shows "lua_heap c' = override_on (lua_heap c) (lua_heap c') (set (auto_close_list c'))"
    and "lua_actions c' = lua_actions c @ created L e c"
    and "conn_step L E e (graft h as c) = Inr (graft h (as @ created L e c) c')"
proof -
  have "c' = graft (lua_heap c) (lua_actions c @ created L e c) c'"
    using conn_step_local [OF assms(1,2), of "lua_heap c" "lua_actions c" L E] assms(3)
    by (simp add: graft_self local_at_def)
  then show "lua_heap c' = override_on (lua_heap c) (lua_heap c') (set (auto_close_list c'))"
      and "lua_actions c' = lua_actions c @ created L e c"
    by (metis graft_sel(15), metis graft_sel(5))
  show "conn_step L E e (graft h as c) = Inr (graft h (as @ created L e c) c')"
    using conn_step_local [OF assms(1,2), of h as L E] assms(3) by (simp add: local_at_def)
qed

lemma mail_owned_alive: "alive L c \<Longrightarrow> mail_owned c"
  by (auto simp: alive_def waiting_def has_mail_def mail_owned_def split: conn_state.splits)

text \<open>A connection takes at most one new object, for its request.\<close>

fun is_request :: "conn_event \<Rightarrow> bool" where
  "is_request (EvRequest payload) = True"
| "is_request _ = False"

lemma answers_own: "answers L E s c0 c' \<Longrightarrow> auto_close_list c' = auto_close_list c0"
  by (auto simp: answers_def)

lemma turns_own_cells:
  assumes "turns L E e c c'"
  shows "set (auto_close_list c') \<subseteq> set (auto_close_list c) \<union> (if is_request e then {fresh_cell E} else {})"
  using assms
proof (cases rule: turns.cases)
  case (action k m a)
  from action(7) show ?thesis
  proof (cases rule: action_outcome_cases)
    case (answered c0 s)
    with answers_own [OF answered(1)] show ?thesis by simp
  next
    case (relays r)
    then show ?thesis by (simp add: relaying_def)
  qed
qed (auto simp: mail_accepted_def dest: answers_own)

end
