(* ===== verification/Views.thy ===== *)
theory Views
  imports Server "HOL-Library.Sublist"
begin

text \<open>
  The memory behind the string views. \<open>QmqpMail\<close> holds views into the received buffer, the
  sender of an edited mail is a view of \<open>sender_buffer\<close> (\<open>src/MutableMail.hxx\<close>), and
  \<open>src/BasicRelay.cxx\<close> queues spans of all of them and of the inserted headers, to be written
  whenever the peer is ready. Nothing is copied, so these bytes have to stay where they are
  as long as the relay lives. Shown here: they do, whatever all clients and scripts do, if
  no script assigns the sender of the mail that is being relayed. (The theory
  \<open>Execution\<close> shows that such an assignment does destroy the bytes.)
\<close>

section \<open>Memory and views\<close>

text \<open>The pieces of memory a view can refer to: of a mail object the received buffer, the buffer
  of the sender, and the nodes of the list of headers, numbered in the order of insertion.\<close>

datatype memory = BufferOf nat | SenderBufferOf nat | HeaderNode nat nat

type_synonym view = "memory \<times> string"

definition memory_bytes :: "lua_heap \<Rightarrow> memory \<Rightarrow> string option" where
  "memory_bytes h mem =
     (case mem of
        BufferOf k \<Rightarrow> (case h k of Some m \<Rightarrow> buffer m | None \<Rightarrow> None)
      | SenderBufferOf k \<Rightarrow>
          (case h k of Some m \<Rightarrow> if IsStale m then None else Some (sender_buffer m) | None \<Rightarrow> None)
      | HeaderNode k i \<Rightarrow>
          (case h k of Some m \<Rightarrow> if i < length (headers m) then Some (rev (headers m) ! i) else None
           | None \<Rightarrow> None))"

definition view_valid :: "lua_heap \<Rightarrow> view \<Rightarrow> bool" where
  "view_valid h v = (case memory_bytes h (fst v) of None \<Rightarrow> False | Some b \<Rightarrow> sublist (snd v) b)"

text \<open>The sender is a view of the received buffer until \<open>SetSender()\<close> is called.\<close>

definition sender_memory :: "nat \<Rightarrow> IncomingMail \<Rightarrow> memory" where
  "sender_memory k m = (if sender_buffer m = [] then BufferOf k else SenderBufferOf k)"

text \<open>The views that a relay of the mail queues: \<open>AssembleHeaders()\<close> those of the headers, the
  constructor of the relay the others.\<close>

definition header_views :: "nat \<Rightarrow> IncomingMail \<Rightarrow> view list" where
  "header_views k m = map (\<lambda>i. (HeaderNode k i, rev (headers m) ! i)) (rev [0..<length (headers m)])"

definition relay_views :: "nat \<Rightarrow> IncomingMail \<Rightarrow> view list" where
  "relay_views k m = header_views k m @
     [(BufferOf k, message m), (sender_memory k m, sender m), (BufferOf k, tail m)]"

lemma header_views_bytes [simp]: "map snd (header_views k m) = headers m"
  by (simp add: header_views_def rev_map comp_def rev_swap map_nth [of "rev (headers m)", simplified]
      flip: rev_map)

text \<open>What the relay sends is made of these views and of bytes that it owns itself or the
  connection does: the line \<open>Received\<close> and the headers of the netstrings.\<close>

lemma relay_request_views:
  "request (BasicRelay_new L m (AssembleHeaders L p m)) =
    NetstringGenerator L (map snd (header_views k m) @ drop (length (headers m)) (AssembleHeaders L p m) @
      [message m]) True @ [NetstringHeader L (length (sender m)), sender m, tail m]"
  by (simp add: BasicRelay_new_def AssembleHeaders_def)

section \<open>What scripts do to the memory\<close>

text \<open>\<open>m'\<close> has the memory of \<open>m\<close>; a header may have been inserted at the front.\<close>

definition memory_kept :: "IncomingMail \<Rightarrow> IncomingMail \<Rightarrow> bool" where
  "memory_kept m m' \<longleftrightarrow> buffer m' = buffer m \<and> sender_buffer m' = sender_buffer m \<and>
     IsStale m' = IsStale m \<and> suffix (headers m) (headers m')"

lemma memory_kept_refl [simp]: "memory_kept m m"
  by (simp add: memory_kept_def)

lemma memory_kept_trans: "memory_kept a b \<Longrightarrow> memory_kept b c \<Longrightarrow> memory_kept a c"
  by (auto simp: memory_kept_def intro: suffix_order.trans)

lemma memory_kept_view:
  assumes "h k = Some m" and "h' k = Some m'" and "memory_kept m m'"
    and "fst v \<in> {BufferOf k, SenderBufferOf k} \<or> (\<exists>i. fst v = HeaderNode k i)" and "view_valid h v"
  shows "view_valid h' v"
proof -
  obtain new where "headers m' = new @ headers m"
    using assms(3) by (auto simp: memory_kept_def suffix_def)
  with assms have "memory_bytes h' (fst v) = memory_bytes h (fst v)"
    by (auto simp: memory_bytes_def memory_kept_def view_valid_def nth_append
        split: if_splits option.splits)
  with assms(5) show ?thesis
    by (simp add: view_valid_def)
qed

text \<open>The one call that writes to the memory a view may refer to.\<close>

fun assigns_sender :: "libs \<Rightarrow> nat \<Rightarrow> lua_call \<Rightarrow> bool" where
  "assigns_sender L k (SetAttribute args) \<longleftrightarrow> arg args 1 = LMail k \<and>
     (case CheckStringView L args 2 of Inr name \<Rightarrow> c_str name = ''sender'' | Inl _ \<Rightarrow> False)"
| "assigns_sender L k _ \<longleftrightarrow> False"

lemma call_memory:
  assumes "lua_exec L call h = Inr (vs, h')" and "h k = Some m" and "\<not> assigns_sender L k call"
  shows "\<exists>m'. h' k = Some m' \<and> memory_kept m m'"
proof (cases call)
  case (CallMethod name args)
  with assms(1) have "InsertHeader L args h = Inr (vs, h') \<or> h' = h"
    by (auto simp: call_method_def split: if_splits dest: action_method_Inr)
  with assms(2) show ?thesis
    by (auto simp: InsertHeader_Inr memory_kept_def MutableMail_InsertHeader_def IsStale_def
        suffix_ConsI)
next
  case (GetAttribute cgroup args)
  with assms(1) have "Index L cgroup args h = Inr (vs, h')"
    by simp
  with assms(2) show ?thesis
    by (elim Index_Inr) (auto simp: memory_kept_def IsStale_def)
next
  case (SetAttribute args)
  with assms show ?thesis
    by (auto simp: NewIndex_def lua_Inr Let_def memory_kept_def IsStale_def split: if_splits)
qed

lemma lua_exec_memory:
  "h k = Some m \<Longrightarrow> \<not> assigns_sender L k call \<Longrightarrow>
    \<exists>m'. heap_after (lua_exec L call h) h k = Some m' \<and> memory_kept m m'"
  using call_memory by (force simp: heap_after_def split: sum.splits)

section \<open>The views of a mail are valid\<close>

text \<open>An invariant of every live mail object: each of its fields is a part of the memory it
  refers to.\<close>

definition fields_ok :: "IncomingMail \<Rightarrow> bool" where
  "fields_ok m \<longleftrightarrow> (\<exists>b. buffer m = Some b \<and> sublist (message m) b \<and> sublist (tail m) b \<and>
     sublist (sender m) (if sender_buffer m = [] then b else sender_buffer m))"

definition views_ok :: "lua_heap \<Rightarrow> bool" where
  "views_ok h \<longleftrightarrow> (\<forall>k m. h k = Some m \<longrightarrow> \<not> IsStale m \<longrightarrow> fields_ok m)"

lemma relay_views_valid:
  assumes "views_ok h" and "h k = Some m" and "\<not> IsStale m" and "v \<in> set (relay_views k m)"
  shows "view_valid h v"
proof -
  obtain b where "buffer m = Some b" "sublist (message m) b" "sublist (tail m) b"
      "sublist (sender m) (if sender_buffer m = [] then b else sender_buffer m)"
    using assms(1-3) by (auto simp: views_ok_def fields_ok_def)
  with assms(2-4) show ?thesis
    by (auto simp: relay_views_def header_views_def view_valid_def memory_bytes_def sender_memory_def)
qed

lemma relay_views_memory:
  "v \<in> set (relay_views k m) \<Longrightarrow> fst v \<in> {BufferOf k, SenderBufferOf k} \<or> (\<exists>i. fst v = HeaderNode k i)"
  by (auto simp: relay_views_def header_views_def sender_memory_def)

lemma fields_ok_received:
  assumes "split_law L" and "parse_integer_law L" and "strip_law L"
    and "MutableMail_Parse L (new_mutable_mail payload) = (SUCCESS, mail)"
  shows "fields_ok (NewIncomingMail (received_mail L mail) p)"
proof -
  have parse: "Parse L (array_bytes payload) (new_mutable_mail payload) = (SUCCESS, mail)"
    using assms(4) by (simp add: MutableMail_Parse_def new_mutable_mail_def)
  obtain s1 s2 where s: "loose_netstring s1 (message mail)" "loose_netstring (s2 @ '','') (sender mail)"
      "array_bytes payload = s1 @ s2 @ tail mail"
    using Parse_sound [OF assms(1,2) parse] by (auto simp: new_mutable_mail_def)
  obtain b where b: "payload = Some b" "b = s1 @ s2 @ tail mail"
    using s(1,3) by (cases payload) (auto simp: array_bytes_def loose_netstring_def)
  obtain h1 h2 where "s1 = h1 @ '':'' @ message mail @ '',''" "s2 = h2 @ '':'' @ sender mail"
    using s(1,2) by (auto simp: loose_netstring_def)
  then have "sublist (message mail) b" "sublist (sender mail) b" "sublist (tail mail) b"
    unfolding b(2) sublist_def by (metis append.assoc append_Nil2)+
  moreover obtain n where "StripLeft L (message mail) = drop n (message mail)"
    using assms(3) unfolding strip_law_def by blast
  ultimately have "sublist (StripLeft L (message mail)) b" "sublist (sender mail) b" "sublist (tail mail) b"
    using sublist_order.order.trans [OF sublist_drop] by auto
  moreover have "buffer mail = Some b" "sender_buffer mail = []"
    using Parse_frame_mutable(1,2) [OF parse] b(1) by (simp_all add: new_mutable_mail_def)
  ultimately show ?thesis
    by (simp add: fields_ok_def received_mail_def NewIncomingMail_def MutableMail.extend_def)
qed

lemma fields_ok_upd [simp]:
  "fields_ok (m\<lparr>fenv := c\<rparr>) = fields_ok m" "fields_ok (m\<lparr>account := a\<rparr>) = fields_ok m"
  "fields_ok (MutableMail_InsertHeader L n v m) = fields_ok m"
  "fields_ok (m\<lparr>n_headers := x\<rparr>) = fields_ok m"
  by (simp_all add: fields_ok_def MutableMail_InsertHeader_def)

lemma fields_ok_SetSender: "fields_ok m \<Longrightarrow> fields_ok (SetSender s m)"
  by (auto simp: fields_ok_def SetSender_def)

lemma fields_ok_call:
  assumes "lua_exec L call h = Inr (vs, h')" and "h k = Some m" and "h' k = Some m'" and "fields_ok m"
  shows "fields_ok m'"
proof (cases call)
  case (CallMethod name args)
  with assms(1) have "InsertHeader L args h = Inr (vs, h') \<or> h' = h"
    by (auto simp: call_method_def split: if_splits dest: action_method_Inr)
  with assms(2-4) show ?thesis
    by (auto simp: InsertHeader_Inr split: if_splits)
next
  case (GetAttribute cgroup args)
  with assms(1) have "Index L cgroup args h = Inr (vs, h')"
    by simp
  with assms(2-4) show ?thesis
    by (elim Index_Inr) (auto split: if_splits)
next
  case (SetAttribute args)
  with assms(1) obtain j n n' where "h j = Some n" "h' = h(j \<mapsto> n')"
      "(\<exists>s. n' = SetSender s n) \<or> (\<exists>a. n' = n\<lparr>account := a\<rparr>)"
    using NewIndex_Inr [of L args h vs h'] unfolding SetAttribute lua_exec.simps by blast
  with assms(2-4) show ?thesis
    by (auto simp: fields_ok_SetSender split: if_splits)
qed

lemma views_ok_call: "views_ok h \<Longrightarrow> views_ok (heap_after (lua_exec L call h) h)"
proof (cases "lua_exec L call h")
  case (Inr r)
  assume h: "views_ok h"
  obtain vs h' where r: "lua_exec L call h = Inr (vs, h')"
    using Inr by (cases r) auto
  have dom: "dom h' = dom h"
    using lua_exec_after(2) [of L call h] r by (simp add: heap_after_def)
  have "fields_ok m'" if m': "h' k = Some m'" "\<not> IsStale m'" for k m'
  proof -
    obtain m where m: "h k = Some m"
      using dom m'(1) by blast
    have "\<not> IsStale m"
      using lua_exec_after(3) [where h = h and k = k and m = m and L = L and c = call] m r m'
      by (auto simp: heap_after_def same_content_def IsStale_def)
    with h m fields_ok_call [OF r m m'(1)] show ?thesis
      by (simp add: views_ok_def)
  qed
  with r show ?thesis
    by (simp add: views_ok_def heap_after_def)
qed (simp add: heap_after_def)

section \<open>In the server\<close>

lemma views_ok_close: "views_ok h \<Longrightarrow> views_ok (close_mail k h)"
  by (auto simp: views_ok_def close_mail_def split: option.splits if_splits)

lemma views_ok_foldr_close: "views_ok h \<Longrightarrow> views_ok (foldr close_mail ks h)"
  by (induction ks) (simp_all add: views_ok_close)

lemma views_ok_answers:
  "answers L E s c0 c' \<Longrightarrow> views_ok (lua_heap c0) \<Longrightarrow> views_ok (lua_heap c')"
  by (simp add: answers_def views_ok_foldr_close)

lemma turns_views_ok:
  assumes "libs_ok L" and "turns L E e c c'" and "views_ok (lua_heap c)"
  shows "views_ok (lua_heap c')"
  using assms(2)
proof (cases rule: turns.cases)
  case (request_ok payload mail)
  with assms(3) fields_ok_received [OF libs_okD(1-3) [OF assms(1)]] show ?thesis
    by (simp add: views_ok_def mail_accepted_def NewLuaMail_def)
next
  case (script call)
  with assms(3) show ?thesis
    by (simp add: views_ok_call)
next
  case (action k m a)
  from action(7) show ?thesis
  proof (cases rule: action_outcome_cases)
    case (answered c0 s)
    with assms(3) views_ok_answers [OF answered(1)] show ?thesis by simp
  next
    case (relays r)
    with assms(3) show ?thesis by (simp add: relaying_def)
  qed
qed (use assms(3) in \<open>auto simp: views_ok_foldr_close elim!: views_ok_answers\<close>)

lemma server_views_ok:
  assumes "libs_ok L" and "server_trace L es s"
  shows "views_ok (srv_heap s)"
  using assms(2)
proof (induction rule: server_trace.induct)
  case (start as ls)
  then show ?case
    by (simp add: views_ok_def)
next
  case (step es s E e s')
  show ?case
  proof (cases e)
    case (Accept l i t p)
    with step show ?thesis
      by (auto simp: server_accept_def)
  next
    case (Conn i x)
    with step(2,3) obtain c c' where c: "conns s i = Some c" "conn_enabled E (attach s c) x"
        "conn_step L E x (attach s c) = Inr c'" "srv_heap s' = lua_heap c'"
      by (auto simp: server_conn_def and_then_Inr split: option.splits)
    have "turns L E x (attach s c) c'"
      using trace_turns [OF assms(1) server_invD(1) [OF server_trace_inv [OF assms(1) step(1)] c(1)] c(2,3)]
      by simp
    with turns_views_ok [OF assms(1) this] step.IH c(4) show ?thesis
      by simp
  qed
qed

text \<open>The event is a script's call that assigns the sender of the object.\<close>

fun event_assigns :: "libs \<Rightarrow> nat \<Rightarrow> server_event \<Rightarrow> bool" where
  "event_assigns L k (Conn i (EvLua call)) = assigns_sender L k call"
| "event_assigns L k _ = False"

lemma turns_memory:
  assumes "turns L E e c c'" and "conn_enabled E c e" and "lua_heap c k = Some m"
    and "\<not> event_assigns L k (Conn i e)" and "destroyed c' \<Longrightarrow> k \<notin> set (auto_close_list c)"
  shows "\<exists>m'. lua_heap c' k = Some m' \<and> memory_kept m m'"
proof (cases "\<exists>call. e = EvLua call")
  case True
  then obtain call where "e = EvLua call"
    by blast
  with assms(1,3,4) lua_exec_memory [of "lua_heap c" k m L call] show ?thesis
    by (auto elim: turns.cases)
next
  case False
  show ?thesis
  proof (cases "destroyed c'")
    case True
    with turns_other_cell [OF assms(1,2)] False assms(3,5) show ?thesis
      by auto
  next
    case alive: False
    from assms(1) show ?thesis
    proof (cases rule: turns.cases)
      case (request_ok payload mail)
      with assms(2,3) show ?thesis
        by (auto simp: mail_accepted_def NewLuaMail_def)
    next
      case (action q n a)
      from action(7) show ?thesis
      proof (cases rule: action_outcome_cases)
        case (answered c0 s)
        with alive show ?thesis by (simp add: answers_def)
      next
        case (relays r)
        with assms(3) show ?thesis by (simp add: relaying_def)
      qed
    qed (use alive False assms(3) in \<open>auto simp: answers_def\<close>)
  qed
qed

lemma turns_mail_ptr:
  assumes "turns L E e c c'" and "alive L c" and "\<not> destroyed c'" and "mail_ptr c = Some k"
  shows "mail_ptr c' = Some k"
  using assms(1)
proof (cases rule: turns.cases)
  case (request_ok payload mail)
  with assms(2,4) show ?thesis
    by (simp add: alive_def waiting_def)
next
  case (action q n a)
  from action(7) show ?thesis
  proof (cases rule: action_outcome_cases)
    case (answered c0 s)
    with assms(3) show ?thesis by (simp add: answers_def)
  next
    case (relays r)
    with assms(4) show ?thesis by (simp add: relaying_def)
  qed
qed (use assms(3,4) in \<open>auto simp: answers_def\<close>)

text \<open>What the server does from a state on.\<close>

inductive server_run :: "libs \<Rightarrow> server \<Rightarrow> server_event list \<Rightarrow> server \<Rightarrow> bool" for L s where
  stop: "server_run L s [] s"
| step: "server_run L s es s' \<Longrightarrow> server_enabled E s' e \<Longrightarrow> server_step L E e s' = Inr s'' \<Longrightarrow>
    server_run L s (es @ [e]) s''"

lemma server_trace_run:
  "server_trace L es s \<Longrightarrow> server_run L s es' s' \<Longrightarrow> server_trace L (es @ es') s'"
  by (rotate_tac, induction rule: server_run.induct)
    (auto intro: server_trace.step simp flip: append_assoc)

lemma server_step_conns:
  "conns s i = Some c \<Longrightarrow> server_enabled E s e \<Longrightarrow> server_step L E e s = Inr s' \<Longrightarrow>
    \<exists>c'. conns s' i = Some c'"
  by (cases e) (auto simp: server_accept_def server_conn_def and_then_Inr split: option.splits)

lemma server_run_conns:
  assumes "server_run L s es s'" and "conns s i = Some c"
  shows "\<exists>d. conns s' i = Some d"
  using assms(1)
proof (induction rule: server_run.induct)
  case stop
  with assms(2) show ?case by simp
next
  case (step es s' E e s'')
  then show ?case
    using server_step_conns by blast
qed

lemma server_step_destroyed:
  assumes "server_enabled E s e" and "server_step L E e s = Inr s'" and "conns s i = Some c"
    and "conns s' i = Some c'" and "destroyed c"
  shows "destroyed c'"
proof (cases e)
  case (Accept l j t p)
  with assms show ?thesis
    by (auto simp: server_accept_def split: if_splits)
next
  case (Conn j x)
  with assms have "j \<noteq> i"
    using enabled_alive [of E "attach s c" x] by auto
  with assms Conn show ?thesis
    by (auto simp: server_conn_def and_then_Inr split: option.splits)
qed

text \<open>A step that leaves a connection with a mail alive and does not assign the mail's sender.\<close>

lemma server_step_memory:
  assumes "libs_ok L" and "server_trace L es s" and "server_enabled E s e"
    and "server_step L E e s = Inr s'" and "conns s i = Some c" and "mail_ptr c = Some k"
    and "conns s' i = Some c'" and "\<not> destroyed c'" and "\<not> event_assigns L k e"
  shows "\<not> destroyed c \<and> (srv_heap s k = Some m \<longrightarrow>
    mail_ptr c' = Some k \<and> (\<exists>m'. srv_heap s' k = Some m' \<and> memory_kept m m'))"
proof (cases e)
  case (Accept l j t p)
  with assms(3-8) show ?thesis
    by (auto simp: server_accept_def split: if_splits)
next
  case (Conn j x)
  note inv = server_trace_inv [OF assms(1,2)]
  from assms(3,4) Conn obtain d d' where d: "conns s j = Some d" "conn_enabled E (attach s d) x"
      "conn_step L E x (attach s d) = Inr d'" and s': "srv_heap s' = lua_heap d'"
      "conns s' = (conns s)(j \<mapsto> d')"
    by (auto simp: server_conn_def and_then_Inr split: option.splits)
  have t: "alive L (attach s d)" "turns L E x (attach s d) d'"
    using trace_turns [OF assms(1) server_invD(1) [OF inv d(1)] d(2,3)] by simp_all
  have c: "\<not> destroyed c"
    using assms(5,7,8) s'(2) d(1) alive_simps(1) [OF t(1)] by (cases "j = i") auto
  have "alive L (attach s c)"
    using trace_alive [OF assms(1) server_invD(1) [OF inv assms(5)]] c by simp
  then have own: "auto_close_list c = [k]"
    using assms(6) by (auto simp: alive_def waiting_def has_mail_def attach_def split: conn_state.splits)
  have "mail_ptr c' = Some k"
    using turns_mail_ptr [OF t(2,1)] assms(5-8) s'(2) d(1)
    by (cases "j = i") (auto simp: attach_def)
  moreover have "k \<notin> set (auto_close_list d)" if "destroyed d'"
    using that server_invD(3) [OF inv d(1) assms(5)] own assms(7,8) s'(2) by (cases "j = i") auto
  then have "\<exists>m'. srv_heap s' k = Some m' \<and> memory_kept m m'" if "srv_heap s k = Some m"
    using turns_memory [OF t(2) d(2), of k m] that assms(9) Conn s'(1) by (cases x) auto
  ultimately show ?thesis
    using c by blast
qed

lemma server_run_memory:
  assumes "libs_ok L" and "server_trace L es0 s" and "server_run L s es s'"
    and "conns s i = Some c" and "mail_ptr c = Some k" and "srv_heap s k = Some m"
    and "conns s' i = Some c'" and "\<not> destroyed c'" and "\<forall>e \<in> set es. \<not> event_assigns L k e"
  shows "mail_ptr c' = Some k \<and> (\<exists>m'. srv_heap s' k = Some m' \<and> memory_kept m m')"
  using assms(3,7-9)
proof (induction arbitrary: c' rule: server_run.induct)
  case stop
  with assms(4-6) show ?case
    by simp
next
  case (step es s' E e s'')
  have trace: "server_trace L (es0 @ es) s'"
    by (rule server_trace_run [OF assms(2) step.hyps(1)])
  have "\<exists>d. conns s' i = Some d"
    using server_run_conns [OF step.hyps(1) assms(4)] .
  then obtain d where d: "conns s' i = Some d"
    by blast
  show ?case
  proof (cases "destroyed d \<or> mail_ptr d \<noteq> Some k")
    case False
    with step.IH [OF d] step.prems(3) obtain m1 where m1: "srv_heap s' k = Some m1" "memory_kept m m1"
      by auto
    from server_step_memory [OF assms(1) trace step.hyps(2,3) d _ step.prems(1,2), of k m1] False m1
      step.prems(3)
    show ?thesis
      by (auto intro: memory_kept_trans)
  next
    case True
    have "\<not> destroyed d"
      using d step.prems(1,2) step.hyps(2,3) server_step_destroyed by metis
    with True step.IH [OF d] step.prems(3) show ?thesis
      by simp
  qed
qed

section \<open>Properties\<close>

text \<open>C11: Nothing is written behind the back of a relay. Take the mail of a connection at any time,
  in particular when its relay is created and queues views of the headers, the message, the
  sender and the recipients without copying them. Whatever events of whatever connections
  follow, as long as this connection lives and no script assigns the sender of this mail,
  each view still refers to exactly its bytes.\<close>

theorem relayed_views_stay:
  assumes "libs_ok L" and "server_trace L es0 s" and "server_run L s es s'"
    and "conns s i = Some c" and "mail_ptr c = Some k" and "srv_heap s k = Some m"
    and "conns s' i = Some c'" and "\<not> destroyed c'" and "\<forall>e \<in> set es. \<not> event_assigns L k e"
    and "v \<in> set (relay_views k m)"
  shows "view_valid (srv_heap s') v"
proof -
  obtain m' where m': "srv_heap s' k = Some m'" "memory_kept m m'"
    using server_run_memory [OF assms(1-9)] by blast
  have "alive L (attach s' c')"
    using assms(1,7,8) server_trace_run [OF assms(2,3)] server_invD(1) [OF server_trace_inv]
    by (force intro: trace_alive)
  then have "\<not> IsStale m'"
    using m'(1) server_run_memory [OF assms(1-9)]
    by (auto simp: alive_def waiting_def has_mail_def live_in_def attach_def split: conn_state.splits)
  with m'(2) have "\<not> IsStale m"
    by (simp add: memory_kept_def)
  with relay_views_valid [OF server_views_ok [OF assms(1,2)] assms(6) _ assms(10)]
  have "view_valid (srv_heap s) v"
    by simp
  with memory_kept_view [of "srv_heap s" k m "srv_heap s'" m' v] assms(6) m'
    relay_views_memory [OF assms(10)]
  show ?thesis
    by blast
qed

theorem relayed_views_stay_witness:
  "\<exists>m. srv_heap sample_second 0 = Some m \<and>
    list_all (view_valid (srv_heap sample_second)) (relay_views 0 m)"
proof -
  have run: "server_run ref_libs sample_received ([] @ [Accept sample_listener 2 0 sample_peer]) sample_second"
    by (rule server_run.step [OF server_run.stop, of sample_env])
      (simp_all add: sample_second_def sample_received_def sample_accepted_def server_accept_def)
  have heap: "srv_heap sample_second = srv_heap sample_received"
    by (simp add: sample_second_def server_accept_def)
  obtain m where m: "srv_heap sample_received 0 = Some m"
    by (simp add: sample_received_def)
  have "view_valid (srv_heap sample_second) v" if "v \<in> set (relay_views 0 m)" for v
    using relayed_views_stay [OF ref_libs_ok sample_received_trace run attach_sample(3) _ m
        sample_second_conns(1) _ _ that] by simp
  with m heap show ?thesis
    by (auto simp: list_all_iff)
qed

end
