(* ===== verification/Service.thy ===== *)
theory Service
  imports Views
begin

text \<open>
  What the server promises its clients, without mail objects, relays and scripts: a client is
  waited for, then its mail is being worked on, then its connection is closed, with or
  without a response; and which event may lead from one to the other with which response.
  The server is a refinement of this service.
\<close>

section \<open>Simulations\<close>

text \<open>Runs of a system, given by its initial states and its steps, and a functional simulation of
  one system by another with the same events: \<open>refines\<close> holds of the state after a run.\<close>

inductive system_run :: "('s \<Rightarrow> bool) \<Rightarrow> ('e \<Rightarrow> 's \<Rightarrow> 's \<Rightarrow> bool) \<Rightarrow> 'e list \<Rightarrow> 's \<Rightarrow> bool"
  for init step where
  init: "init s \<Longrightarrow> system_run init step [] s"
| step: "system_run init step es s \<Longrightarrow> step e s s' \<Longrightarrow> system_run init step (es @ [e]) s'"

locale simulation =
  fixes init :: "'s \<Rightarrow> bool"
    and step :: "'e \<Rightarrow> 's \<Rightarrow> 's \<Rightarrow> bool"
    and inv :: "'e list \<Rightarrow> 's \<Rightarrow> bool"
    and spec_init :: "'t \<Rightarrow> bool"
    and spec_step :: "'e \<Rightarrow> 't \<Rightarrow> 't \<Rightarrow> bool"
    and abs :: "'s \<Rightarrow> 't"
  assumes sim_init: "init s \<Longrightarrow> inv [] s \<and> spec_init (abs s)"
    and sim_step: "inv es s \<Longrightarrow> step e s s' \<Longrightarrow> inv (es @ [e]) s' \<and> spec_step e (abs s) (abs s')"
begin

lemma run_simulated:
  "system_run init step es s \<Longrightarrow> inv es s \<and> system_run spec_init spec_step es (abs s)"
  by (induction rule: system_run.induct)
    (auto dest: sim_init sim_step intro: system_run.init system_run.step)

end

section \<open>The service\<close>

datatype client = Waiting | Working | Closed "string option"

text \<open>What may become of a client by an event of its connection.\<close>

inductive serves :: "libs \<Rightarrow> conn_event \<Rightarrow> client \<Rightarrow> client \<Rightarrow> bool" for L where
  taken: "MutableMail_Parse L (new_mutable_mail p) = (SUCCESS, mail) \<Longrightarrow>
    serves L (EvRequest p) Waiting Working"
| refused: "MutableMail_Parse L (new_mutable_mail p) = (res, mail) \<Longrightarrow> res \<noteq> SUCCESS \<Longrightarrow>
    serves L (EvRequest p) Waiting (Closed (Some (parse_answer res)))"
| script: "x = Waiting \<or> x = Working \<Longrightarrow> serves L (EvLua call) x x"
| discarded: "type a = DISCARD \<Longrightarrow>
    serves L (EvLuaFinished (LAction a)) Working (Closed (Some ''Kdiscarded''))"
| rejected: "type a = REJECT \<Longrightarrow>
    serves L (EvLuaFinished (LAction a)) Working (Closed (Some ''Drejected''))"
| relayed: "type a \<in> {CONNECT, EXEC, EXEC_RAW} \<Longrightarrow>
    serves L (EvLuaFinished (LAction a)) Working Working"
| not_started: "type a \<in> {EXEC, EXEC_RAW} \<Longrightarrow> s \<in> start_errors \<Longrightarrow>
    serves L (EvLuaFinished (LAction a)) Working (Closed (Some s))"
| no_action: "CheckLuaAction v = None \<Longrightarrow>
    serves L (EvLuaFinished v) Working (Closed (Some ''Zscript failed''))"
| script_failed: "serves L EvLuaError Working (Closed (Some ''Zscript failed''))"
| relaying: "serves L (EvRelay e) Working Working"
| answered: "good_response s \<Longrightarrow> serves L (EvRelay e) Working (Closed (Some s))"
| timed_out: "serves L EvTimeout Working (Closed (Some ''Ztimeout''))"
| failed: "x = Waiting \<or> x = Working \<Longrightarrow> serves L EvError x (Closed None)"
| left: "x = Waiting \<or> x = Working \<Longrightarrow> serves L EvDisconnect x (Closed None)"

inductive_cases serves_ClosedE: "serves L e (Closed r) x"

inductive service_step :: "libs \<Rightarrow> server_event \<Rightarrow> (nat \<rightharpoonup> client) \<Rightarrow> (nat \<rightharpoonup> client) \<Rightarrow> bool"
  for L where
  arrives: "t i = None \<Longrightarrow> service_step L (Accept l i now p) t (t(i \<mapsto> Waiting))"
| served: "t i = Some x \<Longrightarrow> serves L e x y \<Longrightarrow> service_step L (Conn i e) t (t(i \<mapsto> y))"

text \<open>In the service a client that has been dismissed stays dismissed, with the same response.\<close>

lemma service_closed:
  assumes "service_step L e t t'" and "t i = Some (Closed r)"
  shows "t' i = Some (Closed r)"
  using assms by (cases rule: service_step.cases) (auto elim: serves_ClosedE split: if_splits)

section \<open>The server as a service\<close>

definition client_of :: "connection \<Rightarrow> client" where
  "client_of c =
     (if destroyed c then Closed (case responses c of [] \<Rightarrow> None | r # _ \<Rightarrow> Some r)
      else if state c = INIT then Waiting else Working)"

definition clients :: "server \<Rightarrow> nat \<rightharpoonup> client" where
  "clients s = map_option client_of \<circ> conns s"

definition server_moves :: "libs \<Rightarrow> server_event \<Rightarrow> server \<Rightarrow> server \<Rightarrow> bool" where
  "server_moves L e s s' \<longleftrightarrow> (\<exists>E. server_enabled E s e \<and> server_step L E e s = Inr s')"

lemma client_of_attach [simp]: "client_of (attach s c) = client_of c"
  by (simp add: client_of_def)

lemma client_of_answers:
  "answers L E s c0 c' \<Longrightarrow> client_of c' = Closed (Some s)"
  by (auto simp: answers_def ending_def client_of_def)

lemma client_of_alive: "alive L c \<Longrightarrow> client_of c = (if state c = INIT then Waiting else Working)"
  by (simp add: client_of_def alive_def)

lemma client_of_ended: "alive L c \<Longrightarrow> client_of (ended L E msg [] c) = Closed None"
  by (simp add: client_of_def alive_def)

lemma turns_serves:
  assumes "alive L c" and "turns L E e c c'"
  shows "serves L e (client_of c) (client_of c')"
  using assms(2)
proof (cases rule: turns.cases)
  case (request_ok payload mail)
  with assms(1) show ?thesis
    by (auto simp: client_of_def alive_def mail_accepted_def intro: serves.taken)
next
  case (request_bad payload res mail)
  with client_of_alive [OF assms(1)] client_of_answers [OF request_bad(5)] show ?thesis
    by (auto intro: serves.refused)
next
  case (script call)
  with assms(1) show ?thesis
    by (auto simp: client_of_def alive_def intro: serves.script)
next
  case (action k m a)
  then have c: "client_of c = Working"
    using client_of_alive [OF assms(1)] by simp
  show ?thesis
  proof (cases "client_of c' = Working")
    case True
    have "type a \<in> {CONNECT, EXEC, EXEC_RAW}"
      using action(7) True client_of_answers by (cases "type a") (fastforce simp: action_outcome_def)+
    with True c action(1) show ?thesis
      by (simp add: serves.relayed)
  next
    case False
    from action(7) False have "(\<exists>s. client_of c' = Closed (Some s) \<and>
        (type a = DISCARD \<and> s = ''Kdiscarded'' \<or> type a = REJECT \<and> s = ''Drejected'' \<or>
         type a \<in> {EXEC, EXEC_RAW} \<and> s \<in> start_errors))"
      using assms(1) by (cases "type a")
        (auto simp: action_outcome_def client_of_def alive_def relaying_def answers_def ending_def)
    with c action(1) show ?thesis
      by (auto intro: serves.discarded serves.rejected serves.not_started)
  qed
next
  case (no_action v)
  with client_of_alive [OF assms(1)] client_of_answers [OF no_action(4)] show ?thesis
    by (simp add: serves.no_action)
next
  case script_error
  with client_of_alive [OF assms(1)] client_of_answers [OF script_error(3)] show ?thesis
    by (simp add: serves.script_failed)
next
  case (relay_runs r ev r')
  with assms(1) show ?thesis
    by (simp add: client_of_def alive_def serves.relaying)
next
  case (relay_calls r ev r' call)
  with client_of_alive [OF assms(1)] client_of_answers [OF relay_calls(7)] call_ok_good show ?thesis
    by (simp add: serves.answered)
next
  case timeout
  with client_of_alive [OF assms(1)] client_of_answers [OF timeout(3)] show ?thesis
    by (simp add: serves.timed_out)
next
  case error
  with client_of_alive [OF assms(1)] client_of_ended [OF assms(1)] show ?thesis
    by (simp add: serves.failed)
next
  case disconnect
  with client_of_alive [OF assms(1)] client_of_ended [OF assms(1)] show ?thesis
    by (simp add: serves.left)
qed

lemma server_moves_serves:
  assumes "libs_ok L" and "server_inv L es s" and "server_moves L e s s'"
  shows "service_step L e (clients s) (clients s')"
proof (cases e)
  case (Accept l i t p)
  with assms(3) have "conns s i = None" "s' = server_accept L l i t p s"
    by (auto simp: server_moves_def)
  then have "clients s i = None" "clients s' = (clients s)(i \<mapsto> Waiting)"
    by (auto simp: clients_def server_accept_def client_of_def connection_new_def)
  with Accept service_step.arrives show ?thesis
    by metis
next
  case (Conn i x)
  with assms(3) obtain E c c' where c: "conns s i = Some c" "conn_enabled E (attach s c) x"
      "conn_step L E x (attach s c) = Inr c'" and s': "conns s' = (conns s)(i \<mapsto> c')"
    by (auto simp: server_moves_def server_conn_def and_then_Inr split: option.splits)
  have "serves L x (client_of c) (client_of c')"
    using trace_turns [OF assms(1) server_invD(1) [OF assms(2) c(1)] c(2,3)]
      turns_serves [of L "attach s c" E x c'] by simp
  moreover have "clients s i = Some (client_of c)" "clients s' = (clients s)(i \<mapsto> client_of c')"
    using c(1) s' by (auto simp: clients_def)
  ultimately show ?thesis
    using Conn service_step.served by metis
qed

text \<open>The two systems.\<close>

definition server_initial :: "libs \<Rightarrow> server \<Rightarrow> bool" where
  "server_initial L s \<longleftrightarrow> libs_ok L \<and> srv_heap s = Map.empty \<and> conns s = Map.empty \<and>
     list_all action_ok (srv_actions s)"

abbreviation no_clients :: "(nat \<rightharpoonup> client) \<Rightarrow> bool" where
  "no_clients t \<equiv> t = Map.empty"

lemma server_initial_trace: "server_initial L s \<Longrightarrow> server_trace L [] s"
  using server_trace.start [of "srv_actions s" L "srv_listeners s"]
  by (cases s) (simp add: server_initial_def)

lemma trace_system_run:
  assumes "libs_ok L" and "server_trace L es s"
  shows "system_run (server_initial L) (server_moves L) es s"
  using assms(2)
proof (induction rule: server_trace.induct)
  case (start as ls)
  with assms(1) show ?case
    by (intro system_run.init) (simp add: server_initial_def)
next
  case (step es s E e s')
  then have "server_moves L e s s'"
    by (auto simp: server_moves_def)
  with step.IH show ?case
    by (rule system_run.step)
qed

interpretation as_service: simulation "server_initial L" "server_moves L"
    "\<lambda>es s. libs_ok L \<and> server_trace L es s" no_clients "service_step L" clients for L
proof
  fix s
  assume "server_initial L s"
  then show "(libs_ok L \<and> server_trace L [] s) \<and> no_clients (clients s)"
    by (auto simp: server_initial_trace server_initial_def clients_def)
next
  fix es s e s'
  assume "libs_ok L \<and> server_trace L es s" "server_moves L e s s'"
  then show "(libs_ok L \<and> server_trace L (es @ [e]) s') \<and> service_step L e (clients s) (clients s')"
    using server_moves_serves [OF _ server_trace_inv, of L es s e s']
    by (auto simp: server_moves_def intro: server_trace.step)
qed

lemma server_run_closed:
  assumes "libs_ok L" and "server_trace L es0 s" and "server_run L s es s'"
    and "clients s i = Some (Closed r)"
  shows "clients s' i = Some (Closed r)"
  using assms(3)
proof (induction rule: server_run.induct)
  case stop
  show ?case using assms(4) .
next
  case (step es s1 E e s2)
  have "service_step L e (clients s1) (clients s2)"
    using as_service.sim_step [of L "es0 @ es" s1 e s2] assms(1) server_trace_run [OF assms(2) step(1)] step(2,3)
    by (auto simp: server_moves_def)
  with step.IH show ?case
    using service_closed by blast
qed

section \<open>Properties\<close>

text \<open>C3: The server refines the service. Every run of the server, seen through what its clients can
  tell, is a run of the service: a client's mail is taken or refused by the result of the
  parser, its handler's action or the relay's verdict or the timer decides on the response,
  which has a QMQP code and at most 256 bytes, and in whatever way the server goes on, a
  client that has been dismissed stays dismissed with the same response.\<close>

theorem server_refines_service:
  assumes "libs_ok L" and "server_trace L es s" and "server_run L s es' s'"
  shows "system_run no_clients (service_step L) es (clients s) \<and>
    system_run no_clients (service_step L) (es @ es') (clients s') \<and>
    (\<forall>i r. clients s i = Some (Closed r) \<longrightarrow> clients s' i = Some (Closed r))"
  using as_service.run_simulated [of L es s] as_service.run_simulated [of L "es @ es'" s']
    trace_system_run assms(1,2) server_trace_run [OF assms(2,3)] server_run_closed [OF assms] by blast

theorem server_refines_service_witness:
  "system_run no_clients (service_step ref_libs) sample_events (clients sample_finished) \<and>
    clients sample_finished 0 = Some (Closed (Some ''Kdiscarded''))"
proof
  show "system_run no_clients (service_step ref_libs) sample_events (clients sample_finished)"
    using server_refines_service [OF ref_libs_ok sample_finished_trace server_run.stop] by simp
  have "responses sample_end = [''Kdiscarded'']" "destroyed sample_end"
    using ended_sel(2) [of ref_libs sample_env "''discarded''" "[''Kdiscarded'']"
        "sample_lua DISCARD\<lparr>lua_running := False, state := NOT_RELAYING\<rparr>"]
    by (simp_all add: sample_end_def)
  then show "clients sample_finished 0 = Some (Closed (Some ''Kdiscarded''))"
    by (simp add: clients_def client_of_def attach_sample)
qed

end
