(* ===== verification/Execution.thy ===== *)
theory Execution
  imports Service "HOL-Library.Code_Target_Nat"
begin

text \<open>
  Running the model. An executable function carries a list of events out in a server that
  starts with nothing but its listeners, and checks that each can occur; what it returns is
  a state the server can reach. The unit tests of the parsers become theorems, and a state
  in which a relay has lost the bytes of a view is shown to be reachable.
\<close>

section \<open>Executable runs\<close>

fun run_server :: "libs \<Rightarrow> (conn_env \<times> server_event) list \<Rightarrow> server \<Rightarrow> server option" where
  "run_server L [] s = Some s"
| "run_server L ((E, e) # es) s =
     (if server_enabled E s e
      then (case server_step L E e s of Inr s' \<Rightarrow> run_server L es s' | Inl _ \<Rightarrow> None) else None)"

definition server_new :: "listener list \<Rightarrow> server" where
  "server_new ls = \<lparr>srv_listeners = ls, srv_heap = Map.empty, srv_actions = [], conns = Map.empty\<rparr>"

lemma server_new_trace: "server_trace L [] (server_new ls)"
  unfolding server_new_def by (rule server_trace.start) simp

lemma run_server_runs:
  "server_run L s0 es0 s \<Longrightarrow> run_server L es s = Some s' \<Longrightarrow> server_run L s0 (es0 @ map snd es) s'"
proof (induction L es s arbitrary: es0 rule: run_server.induct)
  case (2 L E e es s)
  then obtain s1 where "server_enabled E s e" "server_step L E e s = Inr s1" "run_server L es s1 = Some s'"
    by (auto split: if_splits sum.splits)
  with 2 server_run.step [OF "2.prems"(1)] show ?case
    by fastforce
qed simp

lemmas run_server_run = run_server_runs [OF server_run.stop, simplified]

lemma run_server_trace:
  "run_server L es (server_new ls) = Some s \<Longrightarrow> server_trace L (map snd es) s"
  using server_trace_run [OF server_new_trace run_server_run] by fastforce

section \<open>A relay that has lost its sender\<close>

text \<open>The script of the first client edits the sender and asks for another server; the relay is
  started with a view of the buffer that holds the edited sender.\<close>

definition edit_sender :: "string \<Rightarrow> lua_call" where
  "edit_sender a = SetAttribute [LMail 0, LString ''sender'', LString a]"

definition overlap_action :: Action where
  "overlap_action = \<lparr>type = CONNECT, connect = ''h'', exec = [], env = [], timeout = -1\<rparr>"

definition overlap_events :: "(conn_env \<times> server_event) list" where
  "overlap_events = map (Pair sample_env) (Accept sample_listener 0 0 sample_peer # map (Conn 0)
     [EvRequest (Some sample_payload), EvLua (edit_sender ''x@y''),
      EvLua (CallMethod ''connect'' [LMail 0, LString ''h'']), EvLuaFinished (LAction overlap_action)])"

text \<open>A second client comes, and its script edits the sender of the first mail, which it has
  found in a global variable.\<close>

definition overwrite_events :: "(conn_env \<times> server_event) list" where
  "overwrite_events = map (Pair (sample_env\<lparr>fresh_cell := 1\<rparr>)) (Accept sample_listener 2 0 sample_peer #
     map (Conn 2) [EvRequest (Some sample_payload), EvLua (edit_sender ''q@z'')])"

definition overlap_server :: "server option" where
  "overlap_server = run_server ref_libs overlap_events (server_new [sample_listener])"

text \<open>Two views of a server: what the first connection is relaying, and which views its relay has
  queued when it is created.\<close>

definition relayed_now :: "server \<Rightarrow> string option" where
  "relayed_now s =
     (case conns s 0 of
        None \<Rightarrow> None
      | Some c \<Rightarrow> if destroyed c then None
          else (case relay_operation c of Some (Remote r) \<Rightarrow> Some (wire_payload r) | _ \<Rightarrow> None))"

definition queued_views :: "server \<Rightarrow> view list" where
  "queued_views s = (case srv_heap s 0 of None \<Rightarrow> [] | Some m \<Rightarrow> relay_views 0 m)"

abbreviation overlap_payload :: string where
  "overlap_payload \<equiv> ''45:Received: from PID=4711 UID=1000 with QMQP'' @ CRLF @ ''m,3:x@y,3:c@d,''"

abbreviation overlap_view :: view where
  "overlap_view \<equiv> (SenderBufferOf 0, ''x@y'')"

definition overlap_sees :: "server \<Rightarrow> string option \<times> bool \<times> bool" where
  "overlap_sees s = (relayed_now s, overlap_view \<in> set (queued_views s), view_valid (srv_heap s) overlap_view)"

lemma overlap_seen:
  "map_option (\<lambda>s. (overlap_sees s, map_option overlap_sees (run_server ref_libs overwrite_events s)))
      overlap_server =
    Some ((Some overlap_payload, True, True), Some (Some overlap_payload, False, False))"
  by code_simp

section \<open>The unit tests\<close>

text \<open>\<open>test/TestNetstringParser.cxx\<close>.\<close>

definition malformed_netstrings :: "string list" where
  "malformed_netstrings = ['''', '':'', '':foo,'', ''foo'', ''foo:bar,'', '' 3:foo,'', ''03:foo,'', ''+3:foo,'',
     ''-3:foo,'', ''1.0:x,'', ''1e0:x,'', ''18446744073709551616:x,'', ''3:foo'', ''3:fo,'', ''3:foo;'']"

lemma TestNetstringParser:
  "ParseNetstring ref_libs ''3:foo,'' = (Some ''foo'', [])"
  "ParseNetstring ref_libs ''0:,'' = (Some [], [])"
  "ParseNetstring ref_libs ''3:foo,4:tail,'' = (Some ''foo'', ''4:tail,'')"
  "ParseNetstring ref_libs ''4:tail,'' = (Some ''tail'', [])"
  "list_all (\<lambda>s. ParseNetstring ref_libs s = (None, s)) malformed_netstrings"
  by code_simp+

text \<open>\<open>test/TestQmqpMail.cxx\<close>.\<close>

definition qmqp_basic :: string where
  "qmqp_basic = qmqp_payload (''Subject: Hello!'' @ CRLF @ CRLF @ ''Body'' @ CRLF) ''sender@example.com''
     [''one@example.com'', ''two@example.com'']"

definition malformed_envelopes :: "string list" where
  "malformed_envelopes =
     [qmqp_payload ''message'' ''sender@example.com'' [],
      netstring ''message'' @ '' 18:sender@example.com,'' @ netstring ''recipient@example.com'',
      netstring ''message'' @ netstring ''sender@example.com'' @ '' 21:recipient@example.com,'',
      netstring ''message'' @ netstring ''sender@example.com'' @ netstring ''recipient@example.com'' @ ''garbage'']"

definition bad_addresses :: "string list" where
  "bad_addresses =
     [qmqp_payload ''message'' ''not an address'' [''recipient@example.com''],
      qmqp_payload ''message'' ''sender@example.com'' [''not an address'']]"

lemma TestQmqpMail_Basic:
  "Parse ref_libs qmqp_basic empty_mail = (SUCCESS,
     \<lparr>message = ''Subject: Hello!'' @ CRLF @ CRLF @ ''Body'' @ CRLF,
      tail = '','' @ netstring ''one@example.com'' @ netstring ''two@example.com'',
      sender = ''sender@example.com'', recipients = [''one@example.com'', ''two@example.com'']\<rparr>)"
  by code_simp

lemma TestQmqpMail_EmptyMessage:
  "Parse ref_libs (qmqp_payload [] ''sender@example.com'' [''recipient@example.com'']) empty_mail = (SUCCESS,
     \<lparr>message = [], tail = '','' @ netstring ''recipient@example.com'', sender = ''sender@example.com'',
      recipients = [''recipient@example.com'']\<rparr>)"
  by code_simp

lemma TestQmqpMail_RejectsMalformedEnvelope:
  "list_all (\<lambda>s. fst (Parse ref_libs s empty_mail) = MALFORMED) malformed_envelopes"
  by code_simp

lemma TestQmqpMail_RejectsBadAddress:
  "list_all (\<lambda>s. fst (Parse ref_libs s empty_mail) = BAD_ADDRESS) bad_addresses"
  by code_simp

section \<open>Properties\<close>

text \<open>C35: While a mail whose sender has been edited is being relayed, its bytes can be taken away.
  The first client's script edits the sender and asks for another server; the relay queues a
  view of the buffer of the sender. Before it is sent, the script of a second client assigns
  the sender of the first mail again, which nothing refuses, since the object is not stale:
  the relay goes on, and the view no longer refers to its bytes.\<close>

theorem sender_overwritten:
  "\<exists>s s'. server_trace ref_libs (map snd overlap_events) s \<and>
    relayed_now s = Some overlap_payload \<and> overlap_view \<in> set (queued_views s) \<and>
    view_valid (srv_heap s) overlap_view \<and>
    server_run ref_libs s (map snd overwrite_events) s' \<and>
    relayed_now s' = Some overlap_payload \<and> \<not> view_valid (srv_heap s') overlap_view"
proof -
  obtain s where s: "overlap_server = Some s" "overlap_sees s = (Some overlap_payload, True, True)"
      "map_option overlap_sees (run_server ref_libs overwrite_events s) = Some (Some overlap_payload, False, False)"
    using overlap_seen unfolding map_option_eq_Some prod.inject by blast
  then obtain s' where s': "run_server ref_libs overwrite_events s = Some s'"
      "overlap_sees s' = (Some overlap_payload, False, False)"
    unfolding map_option_eq_Some by blast
  from s(2) s'(2) run_server_trace [OF s(1) [unfolded overlap_server_def]] run_server_run [OF s'(1)]
  show ?thesis
    unfolding overlap_sees_def prod.inject by blast
qed

end
