(* ===== verification/Serial.thy ===== *)
theory Serial
  imports Locality Execution "HOL-Library.Multiset"
begin

text \<open>
  One client after the other. The events of the clients of a server interleave; here it is
  shown that the order between different clients does not matter as long as their scripts
  keep to themselves: any run can be sorted by clients, each one's events in their order, and
  has the same outcome. The step of adjacent events is exchanged with the frame of
  \<open>Locality\<close>, and the sorting is insertion sort.
\<close>

section \<open>A step of one client\<close>

fun client :: "server_event \<Rightarrow> nat" where
  "client (Accept l i now p) = i"
| "client (Conn i e) = i"

fun is_server_request :: "server_event \<Rightarrow> bool" where
  "is_server_request (Conn i e) = is_request e"
| "is_server_request _ = False"

text \<open>Every event sets the connection of its client, and with it the shared state.\<close>

definition commit :: "nat \<Rightarrow> connection \<Rightarrow> server \<Rightarrow> server" where
  "commit i c s = s\<lparr>srv_heap := lua_heap c, srv_actions := lua_actions c, conns := (conns s)(i \<mapsto> c)\<rparr>"

fun client_step :: "libs \<Rightarrow> conn_env \<Rightarrow> server_event \<Rightarrow> server \<Rightarrow> crash + connection" where
  "client_step L E (Accept l i now p) s = Inr (connection_new L l now p (srv_heap s) (srv_actions s))"
| "client_step L E (Conn i e) s =
     (case conns s i of None \<Rightarrow> Inl UseAfterFree | Some c \<Rightarrow> conn_step L E e (attach s c))"

lemma server_step_commit:
  "server_step L E ev s = map_sum id (\<lambda>c. commit (client ev) c s) (client_step L E ev s)"
  by (cases ev; cases s)
    (auto simp: commit_def server_accept_def connection_new_def server_conn_def and_then_def
      split: option.split sum.split)

lemma commit_sel [simp]:
  "srv_listeners (commit i c s) = srv_listeners s" "srv_heap (commit i c s) = lua_heap c"
  "srv_actions (commit i c s) = lua_actions c" "conns (commit i c s) = (conns s)(i \<mapsto> c)"
  by (simp_all add: commit_def)

section \<open>What a client has of its own\<close>

text \<open>The part of a connection that is not shared, and the mail objects it owns.\<close>

definition own_part :: "connection \<Rightarrow> connection" where
  "own_part c = c\<lparr>lua_heap := Map.empty, lua_actions := []\<rparr>"

definition own :: "server \<Rightarrow> nat \<Rightarrow> nat set" where
  "own s i = (case conns s i of None \<Rightarrow> {} | Some c \<Rightarrow> set (auto_close_list c))"

text \<open>Two servers that are the same to a client.\<close>

definition agree :: "nat \<Rightarrow> server \<Rightarrow> server \<Rightarrow> bool" where
  "agree i s t \<longleftrightarrow> srv_listeners t = srv_listeners s \<and>
     map_option own_part (conns t i) = map_option own_part (conns s i) \<and>
     (\<forall>k \<in> own s i. srv_heap t k = srv_heap s k)"

text \<open>Two servers that are the same to all; the action objects are not ordered.\<close>

definition same_server :: "server \<Rightarrow> server \<Rightarrow> bool" where
  "same_server s t \<longleftrightarrow> srv_listeners t = srv_listeners s \<and> srv_heap t = srv_heap s \<and>
     mset (srv_actions t) = mset (srv_actions s) \<and>
     (\<forall>i. map_option own_part (conns t i) = map_option own_part (conns s i))"

text \<open>A script keeps to itself if it works on mails of its own connection; a handler, if it
  returns an action object that it has created or that was there before. \<open>m i\<close> are these
  actions of client \<open>i\<close>.\<close>

fun private_event :: "(nat \<Rightarrow> Action list) \<Rightarrow> server \<Rightarrow> server_event \<Rightarrow> bool" where
  "private_event m s (Conn i (EvLua call)) \<longleftrightarrow> set_option (call_target call) \<subseteq> own s i"
| "private_event m s (Conn i (EvLuaFinished v)) \<longleftrightarrow> set_option (CheckLuaAction v) \<subseteq> set (m i)"
| "private_event m s _ \<longleftrightarrow> True"

lemma own_part_eq: "own_part d = own_part c \<Longrightarrow> attach t d = attach t c"
  by (cases c; cases d) (simp add: own_part_def attach_def)

lemma own_part_sel: "own_part d = own_part c \<Longrightarrow> auto_close_list d = auto_close_list c"
  by (cases c; cases d) (simp add: own_part_def)

lemma own_part_graft [simp]: "own_part (graft h as c) = own_part c"
  by (simp add: own_part_def graft_def)

lemma private_own:
  "private_event m s (Conn i e) \<Longrightarrow> conns s i = Some c \<Longrightarrow> own_objects e (attach s c)"
  by (cases e) (simp_all add: own_def)

text \<open>The same step in another server that is the same to the client: the connection turns out
  the same, but for the rest of the heap, and creates the same actions.\<close>

lemma client_step_local:
  assumes "client_step L E ev s = Inr c'" and "private_event m s ev" and "agree (client ev) s t"
    and "\<And>c. conns s (client ev) = Some c \<Longrightarrow> mail_owned (attach s c)"
  obtains new where "lua_actions c' = srv_actions s @ new"
    "client_step L E ev t = Inr (graft (srv_heap t) (srv_actions t @ new) c')"
    "lua_heap c' = override_on (srv_heap s) (lua_heap c') (set (auto_close_list c'))"
proof (cases ev)
  case (Accept l i now p)
  with assms(1) that [of "[]"] show thesis
    by (auto simp: connection_new_def graft_def)
next
  case (Conn i e)
  with assms(1) obtain c where c: "conns s i = Some c" "conn_step L E e (attach s c) = Inr c'"
    by (auto split: option.splits)
  with assms(3) Conn obtain d where d: "conns t i = Some d" "own_part d = own_part c"
      and heap: "\<forall>k \<in> set (auto_close_list c). srv_heap t k = srv_heap s k"
    by (auto simp: agree_def own_def)
  have "attach t d = graft (srv_heap t) (srv_actions t) (attach s c)"
    using graft_in [of "attach s c" "srv_heap t"] heap own_part_eq [OF d(2)] by (simp add: attach_def)
  with conn_step_frame [OF assms(4) private_own [OF assms(2) [unfolded Conn] c(1)] c(2)] c(1) d(1) Conn
    that [of "created L e (attach s c)"]
  show thesis by simp
qed

lemma enabled_agree:
  assumes "server_enabled E s ev" and "agree (client ev) s t" and "private_event m s ev"
    and "set (m (client ev)) \<subseteq> set (srv_actions t)"
    and "is_server_request ev \<Longrightarrow> srv_heap s (fresh_cell E) = None \<Longrightarrow> srv_heap t (fresh_cell E) = None"
  shows "server_enabled E t ev \<and> private_event m t ev"
proof (cases ev)
  case (Accept l i now p)
  with assms(1,2) show ?thesis
    by (simp add: agree_def)
next
  case (Conn i e)
  with assms(1) obtain c where c: "conns s i = Some c" "conn_enabled E (attach s c) e"
    by (auto split: option.splits)
  with assms(2) Conn obtain d where d: "conns t i = Some d" "own_part d = own_part c"
    by (auto simp: agree_def)
  have "attach t d = (attach s c)\<lparr>lua_heap := srv_heap t, lua_actions := srv_actions t\<rparr>"
    using own_part_eq [OF d(2)] by (simp add: attach_def)
  moreover have "own t i = own s i"
    using c d own_part_sel [OF d(2)] by (simp add: own_def)
  ultimately show ?thesis
    using Conn c d assms(3-5) by (cases e) (auto simp: CheckLuaAction_def split: lua_value.splits)
qed

section \<open>Runs of private scripts\<close>

text \<open>A run with the actions each client has created; it stops at an event that cannot occur or
  is not private.\<close>

definition private_step :: "libs \<Rightarrow> conn_env \<times> server_event \<Rightarrow> server \<times> (nat \<Rightarrow> Action list) \<Rightarrow>
    (server \<times> (nat \<Rightarrow> Action list)) option" where
  "private_step L x sm =
     (case (x, sm) of ((E, ev), (s, m)) \<Rightarrow>
        if server_enabled E s ev \<and> private_event m s ev then
          (case server_step L E ev s of
             Inl _ \<Rightarrow> None
           | Inr s' \<Rightarrow> Some (s', m(client ev := m (client ev) @ drop (length (srv_actions s)) (srv_actions s'))))
        else None)"

fun private_run :: "libs \<Rightarrow> (conn_env \<times> server_event) list \<Rightarrow> server \<times> (nat \<Rightarrow> Action list) \<Rightarrow>
    (server \<times> (nat \<Rightarrow> Action list)) option" where
  "private_run L [] sm = Some sm"
| "private_run L (x # xs) sm = Option.bind (private_step L x sm) (private_run L xs)"

definition reachable :: "libs \<Rightarrow> server \<times> (nat \<Rightarrow> Action list) \<Rightarrow> bool" where
  "reachable L sm \<longleftrightarrow> (\<exists>es. server_trace L es (fst sm)) \<and> (\<forall>i. set (snd sm i) \<subseteq> set (srv_actions (fst sm)))"

lemma enabled_mail_owned:
  assumes "libs_ok L" and "server_trace L es s" and "server_enabled E s ev"
    and "conns s (client ev) = Some c"
  shows "mail_owned (attach s c)"
proof (cases ev)
  case (Conn i e)
  with assms(3,4) have "\<not> destroyed (attach s c)"
    using enabled_alive [of E "attach s c" e] by auto
  then have "alive L (attach s c)"
    by (rule trace_alive [OF assms(1) server_invD(1) [OF server_trace_inv [OF assms(1,2)] assms(4)]])
  then show ?thesis
    by (rule mail_owned_alive)
qed (use assms(3,4) in simp)

text \<open>What a private step is, and that it is the same in a server that is the same to the client.\<close>

lemma private_stepD:
  assumes "libs_ok L" and "reachable L (s, m)" and "private_step L (E, ev) (s, m) = Some (s', m')"
  obtains c new where "server_enabled E s ev" "private_event m s ev" "server_step L E ev s = Inr s'"
    "s' = commit (client ev) c s" "m' = m(client ev := m (client ev) @ new)"
    "lua_actions c = srv_actions s @ new" "reachable L (s', m')"
    "lua_heap c = override_on (srv_heap s) (lua_heap c) (set (auto_close_list c))"
    "\<And>t. agree (client ev) s t \<Longrightarrow>
      client_step L E ev t = Inr (graft (srv_heap t) (srv_actions t @ new) c)"
proof -
  from assms(2) obtain es where es: "server_trace L es s" "\<forall>i. set (m i) \<subseteq> set (srv_actions s)"
    by (auto simp: reachable_def)
  from assms(3) have e: "server_enabled E s ev" "private_event m s ev" "server_step L E ev s = Inr s'"
      and m': "m' = m(client ev := m (client ev) @ drop (length (srv_actions s)) (srv_actions s'))"
    by (auto simp: private_step_def split: if_splits sum.splits)
  from e(3) obtain c where c: "client_step L E ev s = Inr c" "s' = commit (client ev) c s"
    by (cases "client_step L E ev s") (auto simp: server_step_commit)
  note local = client_step_local [OF c(1) e(2) _ enabled_mail_owned [OF assms(1) es(1) e(1)]]
  obtain new where new: "lua_actions c = srv_actions s @ new"
      "lua_heap c = override_on (srv_heap s) (lua_heap c) (set (auto_close_list c))"
    by (rule local [of s]) (simp_all add: agree_def)
  have same: "client_step L E ev t = Inr (graft (srv_heap t) (srv_actions t @ new) c)"
    if "agree (client ev) s t" for t
    by (rule local [OF that]) (use new(1) in simp_all)
  have m': "m' = m(client ev := m (client ev) @ new)"
    using m' new(1) c(2) by simp
  have "reachable L (s', m')"
    using server_trace.step [OF es(1) e(1,3)] es(2) new(1) c(2) m' by (auto simp: reachable_def)
  then show thesis
    using that [OF e c(2) m' new(1) _ new(2) same] by blast
qed

lemma private_stepI:
  assumes "server_enabled E t ev" and "private_event m t ev"
    and "client_step L E ev t = Inr c" and "lua_actions c = srv_actions t @ new"
  shows "private_step L (E, ev) (t, m) = Some (commit (client ev) c t, m(client ev := m (client ev) @ new))"
  using assms by (simp add: private_step_def server_step_commit)

lemma private_run_reachable:
  "libs_ok L \<Longrightarrow> reachable L sm \<Longrightarrow> private_run L xs sm = Some sm' \<Longrightarrow> reachable L sm'"
proof (induction xs arbitrary: sm)
  case (Cons x xs)
  obtain s m E ev where sm: "sm = (s, m)" "x = (E, ev)"
    by (cases sm; cases x)
  with Cons.prems obtain s1 m1 where s1: "private_step L (E, ev) (s, m) = Some (s1, m1)"
      "private_run L xs (s1, m1) = Some sm'"
    by (auto simp: bind_eq_Some_conv)
  have "reachable L (s1, m1)"
    using private_stepD [OF Cons.prems(1) Cons.prems(2) [unfolded sm(1)] s1(1)] by blast
  with Cons s1(2) show ?case
    by blast
qed simp

section \<open>The same server\<close>

lemma same_server_refl: "same_server s s"
  by (simp add: same_server_def)

lemma same_server_trans: "same_server s t \<Longrightarrow> same_server t u \<Longrightarrow> same_server s u"
  by (simp add: same_server_def)

lemma same_server_agree: "same_server s t \<Longrightarrow> agree i s t"
  by (simp add: same_server_def agree_def)

lemma same_server_actions: "same_server s t \<Longrightarrow> set (srv_actions t) = set (srv_actions s)"
  unfolding same_server_def by (metis set_mset_mset)

lemma private_step_same:
  assumes "libs_ok L" and "reachable L (s, m)" and "private_step L x (s, m) = Some (s', m')"
    and "same_server s t"
  shows "\<exists>t'. private_step L x (t, m) = Some (t', m') \<and> same_server s' t'"
proof -
  obtain E ev where x: "x = (E, ev)"
    by (cases x)
  from private_stepD [OF assms(1,2) assms(3) [unfolded x]] obtain c new where
    step: "server_enabled E s ev" "private_event m s ev" "s' = commit (client ev) c s"
      "m' = m(client ev := m (client ev) @ new)" "lua_actions c = srv_actions s @ new"
      "lua_heap c = override_on (srv_heap s) (lua_heap c) (set (auto_close_list c))"
    and same: "\<And>t. agree (client ev) s t \<Longrightarrow> client_step L E ev t = Inr (graft (srv_heap t) (srv_actions t @ new) c)"
    by metis
  have "set (m (client ev)) \<subseteq> set (srv_actions t)"
    using assms(2) same_server_actions [OF assms(4)] by (simp add: reachable_def)
  then have en: "server_enabled E t ev \<and> private_event m t ev"
    using enabled_agree [OF step(1) same_server_agree [OF assms(4)] step(2)] assms(4)
    by (simp add: same_server_def)
  let ?c = "graft (srv_heap t) (srv_actions t @ new) c"
  have "private_step L x (t, m) = Some (commit (client ev) ?c t, m')"
    using private_stepI [of E t ev m L ?c new] en same [OF same_server_agree [OF assms(4)]] step(4)
    by (simp add: x)
  moreover have "srv_heap t = srv_heap s"
    using assms(4) by (simp add: same_server_def)
  then have "same_server s' (commit (client ev) ?c t)"
    using assms(4) step(3,5) step(6) [symmetric] by (simp add: same_server_def)
  ultimately show ?thesis
    by blast
qed

lemma private_run_same:
  assumes "libs_ok L" and "reachable L (s, m)" and "private_run L xs (s, m) = Some (s', m')"
    and "same_server s t"
  shows "\<exists>t'. private_run L xs (t, m) = Some (t', m') \<and> same_server s' t'"
  using assms(2-)
proof (induction xs arbitrary: s m t)
  case (Cons x xs)
  from Cons.prems(2) obtain s1 m1 where s1: "private_step L x (s, m) = Some (s1, m1)"
      "private_run L xs (s1, m1) = Some (s', m')"
    by (auto simp: bind_eq_Some_conv)
  obtain t1 where t1: "private_step L x (t, m) = Some (t1, m1)" "same_server s1 t1"
    using private_step_same [OF assms(1) Cons.prems(1) s1(1) Cons.prems(3)] by blast
  have "reachable L (s1, m1)"
    using private_run_reachable [OF assms(1) Cons.prems(1), of "[x]"] s1(1) by simp
  from Cons.IH [OF this s1(2) t1(2)] t1(1) show ?case
    by simp
qed simp

section \<open>Exchanging two events\<close>

text \<open>The objects of different clients are different, before and after any step.\<close>

lemma own_apart:
  assumes "libs_ok L" and "reachable L (s, m)" and "i \<noteq> j"
  shows "own s i \<inter> own s j = {}" and "own s i \<subseteq> dom (srv_heap s)"
proof -
  obtain es where "server_inv L es s"
    using assms(1,2) server_trace_inv by (auto simp: reachable_def)
  with server_invD(2,3) [OF this] assms(3)
  show "own s i \<inter> own s j = {}" and "own s i \<subseteq> dom (srv_heap s)"
    unfolding own_def by (auto split: option.splits)
qed

lemma own_commit [simp]: "own (commit i c s) j = (if j = i then set (auto_close_list c) else own s j)"
  by (simp add: own_def)

text \<open>A step of one client leaves the server the same to the others.\<close>

lemma agree_commit:
  assumes "i \<noteq> j" and "lua_heap c = override_on (srv_heap s) (lua_heap c) (set (auto_close_list c))"
    and "set (auto_close_list c) \<inter> own s j = {}"
  shows "agree j (commit i c s) s" and "agree j s (commit i c s)"
proof -
  have "lua_heap c k = srv_heap s k" if "k \<in> own s j" for k
    using assms(2,3) that by (metis IntI empty_iff override_on_apply_notin)
  with assms(1) show "agree j (commit i c s) s" and "agree j s (commit i c s)"
    by (simp_all add: agree_def)
qed

text \<open>A client takes no object but its own and, for a request, the fresh cell.\<close>

lemma own_step:
  assumes "libs_ok L" and "reachable L (s, m)" and "server_enabled E s ev"
    and "client_step L E ev s = Inr c"
  shows "set (auto_close_list c) \<subseteq> own s (client ev) \<union> (if is_server_request ev then {fresh_cell E} else {})"
proof (cases ev)
  case (Conn i e)
  with assms(3,4) obtain d where d: "conns s i = Some d" "conn_enabled E (attach s d) e"
      "conn_step L E e (attach s d) = Inr c"
    by (auto split: option.splits)
  obtain es where "server_trace L es s"
    using assms(2) by (auto simp: reachable_def)
  from trace_turns [OF assms(1) server_invD(1) [OF server_trace_inv [OF assms(1) this] d(1)] d(2,3)]
  show ?thesis
    using turns_own_cells [of L E e "attach s d" c] d(1) Conn by (simp add: own_def)
qed (use assms(4) in \<open>auto simp: connection_new_def\<close>)

definition apart :: "conn_env \<times> server_event \<Rightarrow> conn_env \<times> server_event \<Rightarrow> bool" where
  "apart x y \<longleftrightarrow> (is_server_request (snd x) \<and> is_server_request (snd y) \<longrightarrow>
     fresh_cell (fst x) \<noteq> fresh_cell (fst y))"

text \<open>An event that has occurred after one of another client could have occurred before it, with
  the same effect on the connection.\<close>

lemma step_before:
  assumes "libs_ok L" and "reachable L (s, m)" and "private_step L (E, e) (s, m) = Some (s1, m1)"
    and "private_step L (F, f) (s1, m1) = Some (s2, m2)" and ij: "client e \<noteq> client f"
  obtains d new where "s2 = commit (client f) d s1" "m2 = m1(client f := m1 (client f) @ new)"
    "lua_actions d = srv_actions s1 @ new"
    "lua_heap d = override_on (srv_heap s1) (lua_heap d) (set (auto_close_list d))"
    "server_enabled F s f" "client_step L F f s = Inr (graft (srv_heap s) (srv_actions s @ new) d)"
    "private_step L (F, f) (s, m) = Some (commit (client f) (graft (srv_heap s) (srv_actions s @ new) d) s,
       m(client f := m (client f) @ new))"
proof -
  let ?i = "client e" and ?j = "client f"
  from private_stepD [OF assms(1-3)] obtain c newx where X: "s1 = commit ?i c s" "m1 = m(?i := m ?i @ newx)"
      "reachable L (s1, m1)" "lua_heap c = override_on (srv_heap s) (lua_heap c) (set (auto_close_list c))"
    by metis
  from private_stepD [OF assms(1) X(3) assms(4)] obtain d new where Y: "server_enabled F s1 f"
      "private_event m1 s1 f" "s2 = commit ?j d s1" "m2 = m1(?j := m1 ?j @ new)" "lua_actions d = srv_actions s1 @ new"
      "lua_heap d = override_on (srv_heap s1) (lua_heap d) (set (auto_close_list d))"
    and same: "\<And>t. agree ?j s1 t \<Longrightarrow> client_step L F f t = Inr (graft (srv_heap t) (srv_actions t @ new) d)"
    by metis
  have own: "set (auto_close_list c) \<inter> own s ?j = {}" "set (auto_close_list c) \<subseteq> dom (lua_heap c)"
    using own_apart [OF assms(1) X(3) ij] ij by (simp_all add: X(1))
  note agree = agree_commit(1) [OF ij X(4) own(1), folded X(1)]
  have "srv_heap s (fresh_cell F) = None" if "srv_heap s1 (fresh_cell F) = None"
  proof -
    from that own(2) have "fresh_cell F \<notin> set (auto_close_list c)"
      by (auto simp: X(1))
    with that X(4) show ?thesis
      by (metis X(1) commit_sel(2) override_on_apply_notin)
  qed
  moreover have "set (m1 ?j) \<subseteq> set (srv_actions s)"
    using assms(2) ij by (simp add: X(2) reachable_def)
  ultimately have F: "server_enabled F s f" "private_event m1 s f"
    using enabled_agree [OF Y(1) agree Y(2)] by simp_all
  have "private_event m s f"
    using F(2) ij by (cases "(m, s, f)" rule: private_event.cases) (simp_all add: X(2))
  then show thesis
    using that [OF Y(3-6) F(1) same [OF agree]] private_stepI [OF F(1) _ same [OF agree]] by simp
qed

text \<open>And the other way round: what has occurred first can still occur after it.\<close>

lemma step_after:
  assumes "libs_ok L" and "reachable L (s, m)" and "private_step L (E, e) (s, m) = Some (s1, m1)"
    and "private_step L (F, f) (s, m) = Some (t1, n1)" and ij: "client e \<noteq> client f"
    and "apart (E, e) (F, f)"
  obtains c new where "s1 = commit (client e) c s" "m1 = m(client e := m (client e) @ new)"
    "lua_actions c = srv_actions s @ new"
    "lua_heap c = override_on (srv_heap s) (lua_heap c) (set (auto_close_list c))"
    "private_step L (E, e) (t1, n1) = Some (commit (client e) (graft (srv_heap t1) (srv_actions t1 @ new) c) t1,
       n1(client e := n1 (client e) @ new))"
proof -
  let ?i = "client e" and ?j = "client f"
  from private_stepD [OF assms(1-3)] obtain c new where X: "server_enabled E s e" "private_event m s e"
      "s1 = commit ?i c s" "m1 = m(?i := m ?i @ new)" "lua_actions c = srv_actions s @ new"
      "lua_heap c = override_on (srv_heap s) (lua_heap c) (set (auto_close_list c))"
    and same: "\<And>t. agree ?i s t \<Longrightarrow> client_step L E e t = Inr (graft (srv_heap t) (srv_actions t @ new) c)"
    by metis
  from private_stepD [OF assms(1,2,4)] obtain d newy where Y: "server_enabled F s f" "server_step L F f s = Inr t1"
      "t1 = commit ?j d s" "n1 = m(?j := m ?j @ newy)" "lua_actions d = srv_actions s @ newy" "reachable L (t1, n1)"
      "lua_heap d = override_on (srv_heap s) (lua_heap d) (set (auto_close_list d))"
    by metis
  have own: "set (auto_close_list d) \<inter> own s ?i = {}"
    using own_apart(1) [OF assms(1) Y(6), of ?j ?i] ij by (simp add: Y(3))
  note agree = agree_commit(2) [OF ij [symmetric] Y(7) own, folded Y(3)]
  have "srv_heap t1 (fresh_cell E) = None" if "is_server_request e" "srv_heap s (fresh_cell E) = None"
  proof -
    obtain d' where "client_step L F f s = Inr d'" "t1 = commit ?j d' s"
      using Y(2) by (cases "client_step L F f s") (auto simp: server_step_commit)
    then have "set (auto_close_list d) \<subseteq> own s ?j \<union> (if is_server_request f then {fresh_cell F} else {})"
      using own_step [OF assms(1,2) Y(1)] Y(3) by (metis commit_sel(4) fun_upd_same option.inject)
    moreover have "own s ?j \<subseteq> dom (srv_heap s)"
      using own_apart(2) [OF assms(1,2) ij [symmetric]] .
    ultimately have "fresh_cell E \<notin> set (auto_close_list d)"
      using that assms(6) by (auto simp: apart_def split: if_splits)
    with that(2) Y(7) show ?thesis
      by (metis Y(3) commit_sel(2) override_on_apply_notin)
  qed
  moreover have "set (m ?i) \<subseteq> set (srv_actions t1)"
    using assms(2) by (auto simp: Y(3,5) reachable_def)
  ultimately have E: "server_enabled E t1 e" "private_event m t1 e"
    using enabled_agree [OF X(1) agree X(2)] by simp_all
  have "private_event n1 t1 e"
    using E(2) ij by (cases "(m, t1, e)" rule: private_event.cases) (simp_all add: Y(4))
  then show thesis
    using that [OF X(3-6)] private_stepI [OF E(1) _ same [OF agree]] by simp
qed

lemma swap:
  assumes "libs_ok L" and "reachable L (s, m)" and "private_run L [x, y] (s, m) = Some (s2, m2)"
    and "client (snd x) \<noteq> client (snd y)" and "apart x y"
  shows "\<exists>t2. private_run L [y, x] (s, m) = Some (t2, m2) \<and> same_server s2 t2"
proof -
  obtain E e F f where xy: "x = (E, e)" "y = (F, f)"
    by (cases x; cases y)
  let ?i = "client e" and ?j = "client f"
  have ij: "?i \<noteq> ?j"
    using assms(4) by (simp add: xy)
  from assms(3) obtain s1 m1 where runs: "private_step L (E, e) (s, m) = Some (s1, m1)"
      "private_step L (F, f) (s1, m1) = Some (s2, m2)"
    by (auto simp: xy bind_eq_Some_conv)
  from step_before [OF assms(1,2) runs ij] obtain d newy where Y: "s2 = commit ?j d s1"
      "m2 = m1(?j := m1 ?j @ newy)" "lua_actions d = srv_actions s1 @ newy"
      "lua_heap d = override_on (srv_heap s1) (lua_heap d) (set (auto_close_list d))"
      "private_step L (F, f) (s, m) = Some (commit ?j (graft (srv_heap s) (srv_actions s @ newy) d) s,
         m(?j := m ?j @ newy))"
    by metis
  let ?t1 = "commit ?j (graft (srv_heap s) (srv_actions s @ newy) d) s"
  from step_after [OF assms(1,2) runs(1) Y(5) ij assms(5) [unfolded xy]] obtain c newx where
    X: "s1 = commit ?i c s" "m1 = m(?i := m ?i @ newx)" "lua_actions c = srv_actions s @ newx"
      "lua_heap c = override_on (srv_heap s) (lua_heap c) (set (auto_close_list c))"
      "private_step L (E, e) (?t1, m(?j := m ?j @ newy)) =
        Some (commit ?i (graft (srv_heap ?t1) (srv_actions ?t1 @ newx) c) ?t1,
          (m(?j := m ?j @ newy))(?i := (m(?j := m ?j @ newy)) ?i @ newx))"
    by metis
  have "reachable L (s2, m2)"
    using private_run_reachable [OF assms(1-3)] .
  from own_apart(1) [OF assms(1) this ij] have "set (auto_close_list c) \<inter> set (auto_close_list d) = {}"
    using ij by (simp add: X(1) Y(1))
  then have "lua_heap d k = lua_heap (graft (srv_heap ?t1) (srv_actions ?t1 @ newx) c) k" for k
    using Y(4) X(4) by (simp add: X(1) override_on_def) (metis IntI empty_iff)
  then have "same_server s2 (commit ?i (graft (srv_heap ?t1) (srv_actions ?t1 @ newx) c) ?t1)"
    using ij by (auto simp: same_server_def X(1,3) Y(1,3))
  moreover have "(m(?j := m ?j @ newy))(?i := (m(?j := m ?j @ newy)) ?i @ newx) = m2"
    using ij by (auto simp: X(2) Y(2))
  ultimately show ?thesis
    using Y(5) X(5) by (simp add: xy)
qed

section \<open>Sorting a run\<close>

lemma private_run_append:
  "private_run L (xs @ ys) sm = Option.bind (private_run L xs sm) (private_run L ys)"
proof (induction xs arbitrary: sm)
  case (Cons x xs)
  then show ?case
    by (cases "private_step L x sm") simp_all
qed simp

lemma insort_run:
  assumes "libs_ok L" and "reachable L (s, m)" and "private_run L (x # ys) (s, m) = Some (s', m')"
    and "\<forall>y \<in> set ys. apart x y"
  shows "\<exists>t. private_run L (insort_key (client \<circ> snd) x ys) (s, m) = Some (t, m') \<and> same_server s' t"
  using assms(2-)
proof (induction ys arbitrary: s m s')
  case (Cons y ys)
  show ?case
  proof (cases "client (snd x) \<le> client (snd y)")
    case True
    with Cons.prems(2) same_server_refl show ?thesis by auto
  next
    case False
    obtain s2 m2 where s2: "private_run L [x, y] (s, m) = Some (s2, m2)"
        "private_run L ys (s2, m2) = Some (s', m')"
      using Cons.prems(2) private_run_append [of L "[x, y]" ys "(s, m)"] by (auto simp: bind_eq_Some_conv)
    obtain t2 where t2: "private_run L [y, x] (s, m) = Some (t2, m2)" "same_server s2 t2"
      using swap [OF assms(1) Cons.prems(1) s2(1)] False Cons.prems(3) by auto
    obtain t' where t': "private_run L ys (t2, m2) = Some (t', m')" "same_server s' t'"
      using private_run_same [OF assms(1) private_run_reachable [OF assms(1) Cons.prems(1) s2(1)] s2(2) t2(2)]
      by blast
    obtain s1 m1 where s1: "private_step L y (s, m) = Some (s1, m1)"
        "private_run L (x # ys) (s1, m1) = Some (t', m')"
      using t2(1) t'(1) by (auto simp: bind_eq_Some_conv)
    have "reachable L (s1, m1)"
      using private_run_reachable [OF assms(1) Cons.prems(1), of "[y]"] s1(1) by simp
    from Cons.IH [OF this s1(2)] Cons.prems(3) s1(1) False same_server_trans [OF t'(2)] show ?thesis
      by auto
  qed
qed (use same_server_refl in auto)

lemma sorted_run:
  assumes "libs_ok L" and "reachable L (s, m)" and "private_run L xs (s, m) = Some (s', m')"
    and "sorted_wrt apart xs"
  shows "\<exists>t. private_run L (sort_key (client \<circ> snd) xs) (s, m) = Some (t, m') \<and> same_server s' t"
  using assms(2-)
proof (induction xs arbitrary: s m)
  case (Cons x xs)
  from Cons.prems(2) obtain s1 m1 where s1: "private_step L x (s, m) = Some (s1, m1)"
      "private_run L xs (s1, m1) = Some (s', m')"
    by (auto simp: bind_eq_Some_conv)
  have "reachable L (s1, m1)"
    using private_run_reachable [OF assms(1) Cons.prems(1), of "[x]"] s1(1) by simp
  moreover have "sorted_wrt apart xs"
    using Cons.prems(3) by simp
  ultimately obtain t where
    t: "private_run L (sort_key (client \<circ> snd) xs) (s1, m1) = Some (t, m')" "same_server s' t"
    using Cons.IH s1(2) by blast
  then have "private_run L (x # sort_key (client \<circ> snd) xs) (s, m) = Some (t, m')"
    using s1(1) by simp
  moreover have "\<forall>y \<in> set (sort_key (client \<circ> snd) xs). apart x y"
    using Cons.prems(3) by simp
  ultimately show ?case
    using insort_run [OF assms(1) Cons.prems(1)] same_server_trans [OF t(2)]
    unfolding sort_key_simps by blast
qed (use same_server_refl in auto)

text \<open>The fresh cells of requests are different.\<close>

definition request_cells :: "(conn_env \<times> server_event) list \<Rightarrow> nat list" where
  "request_cells xs = map (fresh_cell \<circ> fst) (filter (is_server_request \<circ> snd) xs)"

lemma distinct_apart: "distinct (request_cells xs) \<Longrightarrow> sorted_wrt apart xs"
  by (induction xs) (auto simp: request_cells_def apart_def split: if_splits)

lemma private_run_server: "private_run L xs (s, m) = Some (s', m') \<Longrightarrow> run_server L xs s = Some s'"
proof (induction xs arbitrary: s m)
  case (Cons x xs)
  obtain E e where "x = (E, e)"
    by (cases x)
  with Cons show ?case
    by (auto simp: private_step_def bind_eq_Some_conv split: if_splits sum.splits)
qed simp

section \<open>Two clients at the same time\<close>

text \<open>A sample run: the first client's script edits the sender and asks for another server, while
  the second one's inserts a header and discards its mail.\<close>

definition second_env :: conn_env where
  "second_env = sample_env\<lparr>fresh_cell := 1\<rparr>"

definition serial_events :: "(conn_env \<times> server_event) list" where
  "serial_events =
     [(second_env, Accept sample_listener 2 0 sample_peer), (sample_env, Accept sample_listener 0 0 sample_peer),
      (second_env, Conn 2 (EvRequest (Some sample_payload))),
      (sample_env, Conn 0 (EvRequest (Some sample_payload))),
      (second_env, Conn 2 (EvLua (CallMethod ''insert_header'' [LMail 1, LString ''X-A'', LString ''b'']))),
      (sample_env, Conn 0 (EvLua (edit_sender ''x@y''))),
      (second_env, Conn 2 (EvLua (CallMethod ''discard'' [LMail 1]))),
      (sample_env, Conn 0 (EvLua (CallMethod ''connect'' [LMail 0, LString ''h'']))),
      (second_env, Conn 2 (EvLuaFinished (LAction (NewLuaAction\<lparr>type := DISCARD\<rparr>)))),
      (sample_env, Conn 0 (EvLuaFinished (LAction overlap_action)))]"

lemma serial_seen:
  "map_option (\<lambda>(s, m). (relayed_now s, map_option responses (conns s 2)))
     (private_run ref_libs serial_events (server_new [sample_listener], \<lambda>_. [])) =
    Some (Some overlap_payload, Some [''Kdiscarded''])"
  by code_simp

section \<open>Properties\<close>

text \<open>C8: Serving clients at the same time is serving them one after the other. Take any run of
  the server in which scripts keep to themselves: they work on the mails of their own
  connections, and handlers return actions they have created or found. Sort its events by
  clients, each one's in their order: this is a run of the server too, and it ends in the
  same state, with the same mail objects, the same actions, and every connection the same,
  its responses, log datagrams and relay included.\<close>

theorem server_serial:
  assumes "libs_ok L" and "server_trace L es s"
    and "private_run L xs (s, \<lambda>_. srv_actions s) = Some (s1, m)" and "distinct (request_cells xs)"
  shows "run_server L xs s = Some s1 \<and>
    (\<exists>s2. run_server L (sort_key (client \<circ> snd) xs) s = Some s2 \<and> same_server s1 s2)"
proof -
  have "reachable L (s, \<lambda>_. srv_actions s)"
    using assms(2) by (auto simp: reachable_def)
  from sorted_run [OF assms(1) this assms(3) distinct_apart [OF assms(4)]] private_run_server assms(3)
  show ?thesis
    by blast
qed

theorem server_serial_witness:
  "\<exists>s. run_server ref_libs (sort_key (client \<circ> snd) serial_events) (server_new [sample_listener]) = Some s \<and>
    map_option responses (conns s 2) = Some [''Kdiscarded'']"
proof -
  obtain s m where run: "private_run ref_libs serial_events (server_new [sample_listener], \<lambda>_. []) = Some (s, m)"
      "map_option responses (conns s 2) = Some [''Kdiscarded'']"
    using serial_seen unfolding map_option_eq_Some by auto
  have "private_run ref_libs serial_events
      (server_new [sample_listener], \<lambda>_. srv_actions (server_new [sample_listener])) = Some (s, m)"
    using run(1) by (simp add: server_new_def)
  moreover have "distinct (request_cells serial_events)"
    by (simp add: request_cells_def serial_events_def second_env_def sample_env_def)
  ultimately obtain t where t: "run_server ref_libs (sort_key (client \<circ> snd) serial_events)
      (server_new [sample_listener]) = Some t" "same_server s t"
    using server_serial [OF ref_libs_ok server_new_trace] by blast
  have "map_option (responses \<circ> own_part) (conns t 2) = map_option (responses \<circ> own_part) (conns s 2)"
    using t(2) by (simp add: same_server_def flip: option.map_comp)
  then have "map_option responses (conns t 2) = map_option responses (conns s 2)"
    by (simp add: own_part_def comp_def)
  with t(1) run(2) show ?thesis
    by metis
qed

end
