(* ===== verification/Startup.thy ===== *)
theory Startup
  imports Spawn Listener
begin

text \<open>
  The start of the server: \<open>src/CommandLine.cxx\<close>, \<open>src/Main.cxx\<close>, \<open>src/Instance.cxx\<close>,
  \<open>src/LResolver.cxx\<close> and \<open>src/system/SetupProcess.cxx\<close>. A configuration script runs in a Lua
  state that offers \<open>qmqp_listen\<close>; afterwards the configuration functions are taken away and
  the event loop starts. The libraries that fill the Lua state and the operating system are
  parameters; exceptions are values.
\<close>

section \<open>The world of the program\<close>

datatype exception =
    UsageError string        \<comment> \<open>a thrown C string\<close>
  | RuntimeError string
  | SystemError string       \<comment> \<open>\<open>FmtErrno()\<close> and the errors of library functions\<close>
  | LuaFailure lua_error     \<comment> \<open>an error that leaves the configuration script\<close>

text \<open>The options of the build.\<close>

record build =
  HAVE_PG :: bool
  HAVE_LIBSODIUM :: bool
  HAVE_JSON :: bool
  HAVE_JWT :: bool
  HAVE_LIBSYSTEMD :: bool

type_synonym lua_globals = "string \<rightharpoonup> lua_value"

record addrinfo_hints =
  ai_flags :: string
  ai_family :: string
  ai_socktype :: string

text \<open>What the libraries contribute: the effect of their initialisation functions on the global
  variables, the resolver functions, and two default ports.\<close>

record startup_libs =
  lua_init :: "string \<Rightarrow> lua_globals \<Rightarrow> lua_globals"
  PushResolveFunction :: "addrinfo_hints \<Rightarrow> nat \<Rightarrow> lua_value"
  LOG_DEFAULT_PORT :: nat
  CONTROL_DEFAULT_PORT :: nat

record SocketConfig =
  bind_address :: socket_address
  listen :: nat
  mode :: nat
  pass_cred :: bool

text \<open>A configuration script, as far as the program can see it: assignments to global
  variables, calls of the global \<open>qmqp_listen\<close> (possibly protected by \<open>pcall\<close>), errors.\<close>

datatype config_stmt =
    Assign string lua_value
  | CallListen "lua_value list"
  | PCallListen "lua_value list"
  | Raise lua_error

text \<open>The operating system: directories and files by absolute path, sockets.\<close>

record os_env =
  directory :: "string \<Rightarrow> bool"
  script_file :: "string \<Rightarrow> config_stmt list option"
  create_socket :: "SocketConfig \<Rightarrow> int option"
  connect_datagram :: "socket_address \<Rightarrow> bool"

text \<open>\<open>Instance\<close>, with the process attributes it runs with: the working directory, the
  number of sockets passed by systemd that are not yet taken, and the ignored signals.\<close>

record Instance =
  globals :: lua_globals
  metatables :: "string \<rightharpoonup> string list"
  listeners :: "listener list"
  log_socket :: "socket_address option"
  log_lines :: "string list"
  shutdown_listener :: bool
  sighup_event :: bool
  zombie_reaper :: bool
  systemd_watchdog :: bool
  running :: bool
  reloads :: nat
  cwd :: string
  listen_fds :: int
  ignored_signals :: "int list"

definition Instance_new :: "string \<Rightarrow> int \<Rightarrow> Instance" where
  "Instance_new dir fds = \<lparr>globals = Map.empty, metatables = Map.empty, listeners = [], log_socket = None, log_lines = [],
     shutdown_listener = True, sighup_event = True, zombie_reaper = True, systemd_watchdog = True,
     running = False, reloads = 0, cwd = dir, listen_fds = fds, ignored_signals = []\<rparr>"

section \<open>The command line\<close>

definition DEFAULT_CONFIG :: string where
  "DEFAULT_CONFIG = ''/etc/cm4all/qrelay/config.lua''"

text \<open>\<open>argv\<close> with the program name; the result is \<open>config_path\<close>.\<close>

definition ParseCommandLine :: "string list \<Rightarrow> exception + string" where
  "ParseCommandLine argv =
     (if length argv = 3 \<and> argv ! 1 = ''--config'' then Inr (argv ! 2)
      else if length argv \<noteq> 1 then Inl (UsageError ''Usage: cm4all-qrelay [--config PATH]'')
      else Inr DEFAULT_CONFIG)"

section \<open>Listeners\<close>

definition AddListener :: "int \<Rightarrow> size64 \<Rightarrow> lua_value \<Rightarrow> Instance \<Rightarrow> Instance" where
  "AddListener fd max_size handler i =
     i\<lparr>listeners := \<lparr>listener_fd = fd, listener_max_size = max_size, listener_handler = handler\<rparr>
         # listeners i\<rparr>"

definition MakeListener :: "os_env \<Rightarrow> socket_address \<Rightarrow> int option" where
  "MakeListener os address =
     create_socket os \<lparr>bind_address = address, listen = 64, mode = 438, pass_cred = True\<rparr>"

definition AddListenerAddress ::
  "os_env \<Rightarrow> socket_address \<Rightarrow> size64 \<Rightarrow> lua_value \<Rightarrow> Instance \<Rightarrow> lua_error + Instance" where
  "AddListenerAddress os address max_size handler i =
     (case MakeListener os address of
        None \<Rightarrow> Inl LuaException
      | Some fd \<Rightarrow> Inr (AddListener fd max_size handler i))"

definition SD_LISTEN_FDS_START :: int where
  "SD_LISTEN_FDS_START = 3"

text \<open>\<open>sd_listen_fds(true)\<close> also clears the environment variables it reads, so that a further
  call returns 0.\<close>

definition AddSystemdListener :: "size64 \<Rightarrow> lua_value \<Rightarrow> Instance \<Rightarrow> Instance" where
  "AddSystemdListener max_size handler i =
     (let n = listen_fds i; i = i\<lparr>listen_fds := 0\<rparr> in
      if n < 0 then i\<lparr>log_lines := log_lines i @ [''sd_listen_fds() failed'']\<rparr>
      else if n = 0 then i\<lparr>log_lines := log_lines i @ [''No systemd socket'']\<rparr>
      else foldl (\<lambda>i k. AddListener (SD_LISTEN_FDS_START + int k) max_size handler i) i [0..<nat n])"

text \<open>The address of the static variable that identifies the keyword \<open>systemd\<close>.\<close>

definition systemd_magic :: nat where
  "systemd_magic = 42"

definition IsSystemdMagic :: "lua_value \<Rightarrow> bool" where
  "IsSystemdMagic v \<longleftrightarrow> v = LLightUserData systemd_magic"

definition GetGlobalInt :: "libs \<Rightarrow> lua_globals \<Rightarrow> string \<Rightarrow> lua_error + int" where
  "GetGlobalInt L g name =
     (case g name of
        None \<Rightarrow> Inl (LuaError (fmt_format L ''`{}` must be a number'' [FStr name]))
      | Some v \<Rightarrow>
          (case lua_tonumber L v of
             None \<Rightarrow> Inl (LuaError (fmt_format L ''`{}` must be a number'' [FStr name]))
           | Some x \<Rightarrow> Inr (lua_tointeger L x)))"

definition is_function :: "lua_value \<Rightarrow> bool" where
  "is_function v \<longleftrightarrow> (case v of LFunction _ \<Rightarrow> True | _ \<Rightarrow> False)"

text \<open>\<open>l_qmqp_listen()\<close>: a C++ exception is turned into a Lua error with its text.\<close>

definition l_qmqp_listen ::
  "build \<Rightarrow> libs \<Rightarrow> os_env \<Rightarrow> lua_value list \<Rightarrow> Instance \<Rightarrow> lua_error + Instance" where
  "l_qmqp_listen B L os args i =
     (if length args \<noteq> 2 then Inl (LuaError ''Invalid parameter count'')
      else if \<not> is_function (arg args 2) then Inl (LuaArgError 2 ''function expected'')
      else
        and_then (GetGlobalInt L (globals i) ''max_size'') (\<lambda>max_size.
        if max_size < 1024 then Inl (LuaError ''`max_size` is too small'')
        else if max_size > 1024 * 1024 * 1024 then Inl (LuaError ''`max_size` is too large'')
        else
          let handler = arg args 2 in
          case arg args 1 of
            LString address_string \<Rightarrow>
              AddListenerAddress os address_string (of_int max_size) handler i
          | v \<Rightarrow>
              if HAVE_LIBSYSTEMD B \<and> IsSystemdMagic v
              then Inr (AddSystemdListener (of_int max_size) handler i)
              else Inl (LuaArgError 1 ''path expected'')))"

section \<open>The Lua state\<close>

definition RegisterLuaResolver :: "startup_libs \<Rightarrow> lua_globals \<Rightarrow> lua_globals" where
  "RegisterLuaResolver S g =
     (let hints = \<lparr>ai_flags = ''AI_ADDRCONFIG'', ai_family = ''AF_UNSPEC'', ai_socktype = ''SOCK_STREAM''\<rparr>;
          g = g(''qmqp_resolve'' \<mapsto> PushResolveFunction S hints 628);
          dgram_hints = \<lparr>ai_flags = ''AI_ADDRCONFIG'', ai_family = ''AF_UNSPEC'', ai_socktype = ''SOCK_DGRAM''\<rparr>;
          g = g(''log_resolve'' \<mapsto> PushResolveFunction S dgram_hints (LOG_DEFAULT_PORT S))
      in g(''control_resolve'' \<mapsto> PushResolveFunction S dgram_hints (CONTROL_DEFAULT_PORT S)))"

definition UnregisterLuaResolver :: "lua_globals \<Rightarrow> lua_globals" where
  "UnregisterLuaResolver g =
     (let g = g(''qmqp_resolve'' := None);
          g = g(''log_resolve'' := None)
      in g(''control_resolve'' := None))"

definition DEFAULT_MAX_SIZE :: int where
  "DEFAULT_MAX_SIZE = 16 * 1024 * 1024"

definition SetupConfigState :: "build \<Rightarrow> startup_libs \<Rightarrow> lua_globals \<Rightarrow> lua_globals" where
  "SetupConfigState B S g =
     (let g = lua_init S ''openlibs'' g;
          g = lua_init S ''Resume'' g;
          g = (if HAVE_LIBSODIUM B then lua_init S ''Sodium'' g else g);
          g = (if HAVE_JSON B then lua_init S ''Json'' g else g);
          g = (if HAVE_JWT B then lua_init S ''Jwt'' g else g);
          g = lua_init S ''Event'' g;
          g = (if HAVE_PG B then lua_init S ''Pg'' g else g);
          g = lua_init S ''SocketAddress'' g;
          g = lua_init S ''Socket'' g;
          g = lua_init S ''ControlClient'' g;
          g = RegisterLuaResolver S g;
          g = g(''max_size'' \<mapsto> LNumber (Finite (of_int DEFAULT_MAX_SIZE)));
          g = (if HAVE_LIBSYSTEMD B then g(''systemd'' \<mapsto> LLightUserData systemd_magic) else g)
      in g(''qmqp_listen'' \<mapsto> LFunction ''qmqp_listen''))"

text \<open>The classes of the objects that scripts handle: \<open>src/LAction.cxx\<close> registers one without
  metamethods, \<open>src/LMail.cxx\<close> one with three. Objects can only be created of registered
  classes. (The methods and attributes behind \<open>__index\<close> are \<open>lua_exec\<close>.)\<close>

definition RegisterLuaAction :: "Instance \<Rightarrow> Instance" where
  "RegisterLuaAction i = i\<lparr>metatables := (metatables i)(''qrelay.action'' \<mapsto> [])\<rparr>"

definition RegisterLuaMail :: "Instance \<Rightarrow> Instance" where
  "RegisterLuaMail i =
     i\<lparr>metatables := (metatables i)(''qrelay.mail'' \<mapsto> [''__close'', ''__index'', ''__newindex''])\<rparr>"

definition Register :: "Instance \<Rightarrow> Instance" where
  "Register i = RegisterLuaMail (RegisterLuaAction i)"

definition SetupRuntimeState :: "startup_libs \<Rightarrow> Instance \<Rightarrow> Instance" where
  "SetupRuntimeState S i =
     (let g = globals i;
          g = g(''max_size'' := None);
          g = g(''qmqp_listen'' := None);
          g = lua_init S ''XattrTable'' g;
          g = lua_init S ''CgroupInfo'' g;
          i = Register (i\<lparr>globals := g\<rparr>)
      in i\<lparr>globals := UnregisterLuaResolver (globals i)\<rparr>)"

lemma SetupRuntimeState_fields [simp]:
  "listeners (SetupRuntimeState S i) = listeners i" "cwd (SetupRuntimeState S i) = cwd i"
  "ignored_signals (SetupRuntimeState S i) = ignored_signals i"
  "shutdown_listener (SetupRuntimeState S i) = shutdown_listener i"
  "sighup_event (SetupRuntimeState S i) = sighup_event i" "reloads (SetupRuntimeState S i) = reloads i"
  "log_socket (SetupRuntimeState S i) = log_socket i"
  "metatables (SetupRuntimeState S i) = (metatables i)(''qrelay.action'' \<mapsto> [],
     ''qrelay.mail'' \<mapsto> [''__close'', ''__index'', ''__newindex''])"
  by (simp_all add: SetupRuntimeState_def Let_def Register_def RegisterLuaAction_def RegisterLuaMail_def)

lemma SetupRuntimeState_globals:
  "globals (SetupRuntimeState S i) = UnregisterLuaResolver (lua_init S ''CgroupInfo'' (lua_init S ''XattrTable''
     ((globals i)(''max_size'' := None, ''qmqp_listen'' := None))))"
  by (simp add: SetupRuntimeState_def Let_def Register_def RegisterLuaAction_def RegisterLuaMail_def)

section \<open>The configuration file\<close>

text \<open>How the kernel resolves a path: an absolute one is itself, any other is relative to the
  working directory. (Symbolic links and dots in a path are not resolved here.)\<close>

definition resolve :: "string \<Rightarrow> string \<Rightarrow> string" where
  "resolve dir path =
     (if path \<noteq> [] \<and> hd path = CHR ''/'' then path
      else if dir = ''/'' then dir @ path
      else dir @ ''/'' @ path)"

definition chdir :: "os_env \<Rightarrow> string \<Rightarrow> Instance \<Rightarrow> Instance option" where
  "chdir os path i =
     (if directory os (resolve (cwd i) path) then Some (i\<lparr>cwd := resolve (cwd i) path\<rparr>) else None)"

text \<open>\<open>strrchr()\<close>, as the number of characters in front of the last occurrence.\<close>

definition strrchr :: "string \<Rightarrow> char \<Rightarrow> nat option" where
  "strrchr s c =
     (if c \<in> set s then Some (length s - Suc (length (takeWhile (\<lambda>x. x \<noteq> c) (rev s)))) else None)"

definition ChdirContainingDirectory :: "os_env \<Rightarrow> string \<Rightarrow> Instance \<Rightarrow> exception + Instance" where
  "ChdirContainingDirectory os path i =
     (case strrchr path (CHR ''/'') of
        None \<Rightarrow> Inr i
      | Some slash \<Rightarrow>
          if slash = 0 then Inr i
          else
            let parent = take slash path in
            case chdir os parent i of
              None \<Rightarrow> Inl (SystemError (''Failed to change to '' @ parent))
            | Some i \<Rightarrow> Inr i)"

text \<open>Running the script: assigning \<open>nil\<close> removes a global variable, a call finds whatever is in
  the variable, \<open>pcall\<close> swallows the error.\<close>

definition call_qmqp_listen ::
  "build \<Rightarrow> libs \<Rightarrow> os_env \<Rightarrow> lua_value list \<Rightarrow> Instance \<Rightarrow> lua_error + Instance" where
  "call_qmqp_listen B L os args i =
     (if globals i ''qmqp_listen'' = Some (LFunction ''qmqp_listen'')
      then l_qmqp_listen B L os args i
      else Inl (LuaError ''attempt to call a nil value''))"

fun run_stmt :: "build \<Rightarrow> libs \<Rightarrow> os_env \<Rightarrow> config_stmt \<Rightarrow> Instance \<Rightarrow> lua_error + Instance" where
  "run_stmt B L os (Assign name v) i =
     Inr (i\<lparr>globals := (globals i)(name := (if v = LNil then None else Some v))\<rparr>)"
| "run_stmt B L os (CallListen args) i = call_qmqp_listen B L os args i"
| "run_stmt B L os (PCallListen args) i =
     (case call_qmqp_listen B L os args i of Inl _ \<Rightarrow> Inr i | Inr i' \<Rightarrow> Inr i')"
| "run_stmt B L os (Raise e) i = Inl e"

fun run_script :: "build \<Rightarrow> libs \<Rightarrow> os_env \<Rightarrow> config_stmt list \<Rightarrow> Instance \<Rightarrow> lua_error + Instance" where
  "run_script B L os [] i = Inr i"
| "run_script B L os (s # ss) i = and_then (run_stmt B L os s i) (run_script B L os ss)"

definition RunFile ::
  "build \<Rightarrow> libs \<Rightarrow> os_env \<Rightarrow> string \<Rightarrow> Instance \<Rightarrow> exception + Instance" where
  "RunFile B L os path i =
     (case script_file os (resolve (cwd i) path) of
        None \<Rightarrow> Inl (SystemError (''cannot open '' @ path))
      | Some ss \<Rightarrow> (case run_script B L os ss i of Inl e \<Rightarrow> Inl (LuaFailure e) | Inr i \<Rightarrow> Inr i))"

definition LoadConfigFile ::
  "build \<Rightarrow> libs \<Rightarrow> os_env \<Rightarrow> string \<Rightarrow> Instance \<Rightarrow> exception + Instance" where
  "LoadConfigFile B L os path i =
     and_then (ChdirContainingDirectory os path i) (\<lambda>i.
     and_then (RunFile B L os path i) (\<lambda>i.
     case chdir os ''/'' i of
       None \<Rightarrow> Inl (SystemError ''Failed to change to /'')
     | Some i \<Rightarrow> Inr i))"

section \<open>The server\<close>

definition Check :: "Instance \<Rightarrow> exception + unit" where
  "Check i =
     (if listeners i = [] then Inl (RuntimeError ''No QMQP listeners configured'') else Inr ())"

definition SetupLogSocket :: "libs \<Rightarrow> startup_libs \<Rightarrow> os_env \<Rightarrow> Instance \<Rightarrow> exception + Instance" where
  "SetupLogSocket L S os i =
     (case globals i ''log_server'' of
        None \<Rightarrow> Inr i
      | Some v \<Rightarrow>
          (case ToSocketAddress L v (LOG_DEFAULT_PORT S) of
             None \<Rightarrow> Inl (RuntimeError ''Not a socket address'')
           | Some address \<Rightarrow>
               if connect_datagram os address then Inr (i\<lparr>log_socket := Some address\<rparr>)
               else Inl (SystemError ''Failed to connect'')))"

text \<open>\<open>Run()\<close> up to the event loop, which runs until \<open>Break()\<close>.\<close>

definition Run ::
  "build \<Rightarrow> libs \<Rightarrow> startup_libs \<Rightarrow> os_env \<Rightarrow> string \<Rightarrow> Instance \<Rightarrow> exception + Instance" where
  "Run B L S os config_path i =
     (let i = i\<lparr>globals := SetupConfigState B S (globals i)\<rparr> in
      and_then (LoadConfigFile B L os config_path i) (\<lambda>i.
      and_then (Check i) (\<lambda>_.
      and_then (SetupLogSocket L S os i) (\<lambda>i.
      let i = SetupRuntimeState S i in
      Inr (i\<lparr>running := True\<rparr>)))))"

text \<open>\<open>SetupProcess()\<close> makes the process ignore \<open>SIGPIPE\<close>, so that writing to a closed pipe or
  socket is an error and not the end of the server. (Disabling thread cancellation has no
  effect that could be seen.)\<close>

definition SetupProcess :: "Instance \<Rightarrow> Instance" where
  "SetupProcess i = i\<lparr>ignored_signals := SIGPIPE # ignored_signals i\<rparr>"

text \<open>\<open>main()\<close>: every exception is printed and becomes the exit status. The process attributes
  are those of the instance that \<open>Run()\<close> is about to create.\<close>

definition EXIT_FAILURE :: int where "EXIT_FAILURE = 1"

definition main ::
  "build \<Rightarrow> libs \<Rightarrow> startup_libs \<Rightarrow> os_env \<Rightarrow> string list \<Rightarrow> string \<Rightarrow> int \<Rightarrow> int + Instance" where
  "main B L S os argv dir fds =
     (case and_then (ParseCommandLine argv) (\<lambda>config_path.
          let i = SetupProcess (Instance_new dir fds) in
          Run B L S os config_path i) of
        Inl e \<Rightarrow> Inl EXIT_FAILURE
      | Inr i \<Rightarrow> Inr i)"

text \<open>The signals the running server reacts to.\<close>

definition OnShutdown :: "build \<Rightarrow> Instance \<Rightarrow> Instance" where
  "OnShutdown B i =
     (let i = i\<lparr>shutdown_listener := False\<rparr>;
          i = i\<lparr>sighup_event := False\<rparr>;
          i = i\<lparr>zombie_reaper := False\<rparr>;
          i = (if HAVE_LIBSYSTEMD B then i\<lparr>systemd_watchdog := False\<rparr> else i)
      in i\<lparr>running := False\<rparr>)"

definition OnReload :: "Instance \<Rightarrow> Instance" where
  "OnReload i = i\<lparr>reloads := reloads i + 1\<rparr>"

section \<open>Paths\<close>

lemma strrchr_last:
  assumes "c \<notin> set t"
  shows "strrchr (s @ c # t) c = Some (length s)"
proof -
  have "takeWhile (\<lambda>x. x \<noteq> c) (rev t @ c # rev s) = rev t"
    using assms by (subst takeWhile_append2) auto
  then show ?thesis
    by (simp add: strrchr_def)
qed

lemma resolve_absolute: "resolve dir (CHR ''/'' # p) = CHR ''/'' # p"
  by (simp add: resolve_def)

lemma chdir_cwd: "chdir os path i = Some i' \<Longrightarrow> i' = i\<lparr>cwd := resolve (cwd i) path\<rparr>"
  by (auto simp: chdir_def split: if_splits)

lemma Chdir_frame:
  "ChdirContainingDirectory os path i = Inr i' \<Longrightarrow> \<exists>d. i' = i\<lparr>cwd := d\<rparr>"
  by (cases i) (auto simp: ChdirContainingDirectory_def Let_def chdir_def
      split: option.splits if_splits)

section \<open>What the configuration can do\<close>

text \<open>Listeners are added only, each with a size limit within the bounds.\<close>

abbreviation signals_of :: "Instance \<Rightarrow> int list \<times> bool \<times> bool \<times> nat" where
  "signals_of i \<equiv> (ignored_signals i, shutdown_listener i, sighup_event i, reloads i)"

definition adds_listeners :: "(listener \<Rightarrow> bool) \<Rightarrow> Instance \<Rightarrow> Instance \<Rightarrow> bool" where
  "adds_listeners P i i' \<longleftrightarrow> signals_of i' = signals_of i \<and> log_socket i' = log_socket i \<and>
     (\<exists>ls. listeners i' = ls @ listeners i \<and> list_all P ls)"

lemma adds_listeners_refl: "adds_listeners P i i"
  by (simp add: adds_listeners_def)

lemma adds_listeners_globals: "adds_listeners P i (i\<lparr>globals := g\<rparr>)"
  by (simp add: adds_listeners_def)

lemma adds_listeners_trans:
  "adds_listeners P i j \<Longrightarrow> adds_listeners P j k \<Longrightarrow> adds_listeners P i k"
  by (auto simp: adds_listeners_def)

lemma adds_listeners_mono:
  "adds_listeners P i i' \<Longrightarrow> (\<And>l. P l \<Longrightarrow> Q l) \<Longrightarrow> adds_listeners Q i i'"
  by (auto simp: adds_listeners_def list_all_iff)

lemma unat_of_int64: "0 \<le> n \<Longrightarrow> n < 2 ^ 64 \<Longrightarrow> unat (of_int n :: size64) = nat n"
  by (simp add: unat_of_nat64 flip: of_nat_nat)

definition same_limit :: "int \<Rightarrow> lua_value \<Rightarrow> listener \<Rightarrow> bool" where
  "same_limit n handler l \<longleftrightarrow> listener_max_size l = of_int n \<and> listener_handler l = handler"

lemma size_okI: "same_limit n f l \<Longrightarrow> 1024 \<le> n \<Longrightarrow> n \<le> 1024 * 1024 * 1024 \<Longrightarrow> size_ok l"
  by (simp add: same_limit_def size_ok_def unat_of_int64 nat_le_iff le_nat_iff)

lemma AddListener_adds: "adds_listeners (same_limit n f) i (AddListener fd (of_int n) f i)"
  by (simp add: adds_listeners_def AddListener_def same_limit_def)

lemma foldl_AddListener:
  "listeners (foldl (\<lambda>i k. AddListener (SD_LISTEN_FDS_START + int k) m f i) i ks) =
    rev (map (\<lambda>k. \<lparr>listener_fd = SD_LISTEN_FDS_START + int k, listener_max_size = m,
      listener_handler = f\<rparr>) ks) @ listeners i"
  "globals (foldl (\<lambda>i k. AddListener (SD_LISTEN_FDS_START + int k) m f i) i ks) = globals i"
  "listen_fds (foldl (\<lambda>i k. AddListener (SD_LISTEN_FDS_START + int k) m f i) i ks) = listen_fds i"
  "ignored_signals (foldl (\<lambda>i k. AddListener (SD_LISTEN_FDS_START + int k) m f i) i ks) = ignored_signals i"
  "shutdown_listener (foldl (\<lambda>i k. AddListener (SD_LISTEN_FDS_START + int k) m f i) i ks) = shutdown_listener i"
  "sighup_event (foldl (\<lambda>i k. AddListener (SD_LISTEN_FDS_START + int k) m f i) i ks) = sighup_event i"
  "reloads (foldl (\<lambda>i k. AddListener (SD_LISTEN_FDS_START + int k) m f i) i ks) = reloads i"
  "log_socket (foldl (\<lambda>i k. AddListener (SD_LISTEN_FDS_START + int k) m f i) i ks) = log_socket i"
  by (induction ks arbitrary: i) (simp_all add: AddListener_def)

lemma AddSystemdListener_adds:
  "adds_listeners (same_limit n f) i (AddSystemdListener (of_int n) f i)"
  by (auto simp: AddSystemdListener_def Let_def adds_listeners_def foldl_AddListener same_limit_def
      list_all_iff)

lemma AddSystemdListener_globals: "globals (AddSystemdListener m f i) = globals i"
  by (simp add: AddSystemdListener_def Let_def foldl_AddListener)

lemma listen_adds:
  assumes "l_qmqp_listen B L os args i = Inr i'"
  shows "\<exists>n. GetGlobalInt L (globals i) ''max_size'' = Inr n \<and> 1024 \<le> n \<and> n \<le> 1024 * 1024 * 1024 \<and>
    adds_listeners (same_limit n (arg args 2)) i i' \<and> globals i' = globals i"
  using assms AddListener_adds AddSystemdListener_adds
  by (auto simp: l_qmqp_listen_def and_then_Inr Let_def AddListenerAddress_def AddListener_def
      AddSystemdListener_globals not_less split: if_splits lua_value.splits option.splits)

lemma call_adds: "call_qmqp_listen B L os args i = Inr i' \<Longrightarrow> adds_listeners size_ok i i'"
  by (auto simp: call_qmqp_listen_def split: if_splits dest!: listen_adds
      intro: adds_listeners_mono size_okI)

lemma run_stmt_adds: "run_stmt B L os s i = Inr i' \<Longrightarrow> adds_listeners size_ok i i'"
  by (cases s) (auto simp: adds_listeners_refl adds_listeners_globals split: sum.splits intro: call_adds)

lemma run_script_adds: "run_script B L os ss i = Inr i' \<Longrightarrow> adds_listeners size_ok i i'"
proof (induction ss arbitrary: i)
  case (Cons s ss)
  then show ?case
    by (auto simp: and_then_Inr intro: adds_listeners_trans run_stmt_adds)
qed (simp add: adds_listeners_refl)

lemma LoadConfigFile_adds:
  assumes "LoadConfigFile B L os path i = Inr i'"
  shows "adds_listeners size_ok i i' \<and> cwd i' = ''/''"
proof -
  from assms obtain i1 i2 where i: "ChdirContainingDirectory os path i = Inr i1"
      "RunFile B L os path i1 = Inr i2" "chdir os ''/'' i2 = Some i'"
    by (auto simp: LoadConfigFile_def and_then_Inr split: option.splits)
  from Chdir_frame [OF i(1)] have "adds_listeners size_ok i i1"
    by (auto simp: adds_listeners_def)
  moreover have "adds_listeners size_ok i1 i2"
    using i(2) run_script_adds by (auto simp: RunFile_def split: option.splits sum.splits)
  moreover have "i' = i2\<lparr>cwd := ''/''\<rparr>"
    using chdir_cwd [OF i(3)] by (simp add: resolve_absolute)
  ultimately show ?thesis
    by (auto simp: adds_listeners_def)
qed

section \<open>Loading the file\<close>

lemma absolute_split:
  "hd (dir @ CHR ''/'' # name) = CHR ''/'' \<Longrightarrow> resolve d (dir @ CHR ''/'' # name) = dir @ CHR ''/'' # name"
  "hd (dir @ CHR ''/'' # name) = CHR ''/'' \<Longrightarrow> dir \<noteq> [] \<Longrightarrow> resolve d dir = dir"
  by (simp_all add: resolve_def split: if_splits)

lemma Chdir_parent:
  assumes "CHR ''/'' \<notin> set name"
  shows "ChdirContainingDirectory os (dir @ CHR ''/'' # name) i =
    (if dir = [] then Inr i
     else if directory os (resolve (cwd i) dir) then Inr (i\<lparr>cwd := resolve (cwd i) dir\<rparr>)
     else Inl (SystemError (''Failed to change to '' @ dir)))"
  using strrchr_last [OF assms, of dir]
  by (simp add: ChdirContainingDirectory_def chdir_def Let_def)

text \<open>With an absolute path the script that runs is the file of that name.\<close>

lemma Load_absolute:
  assumes "CHR ''/'' \<notin> set name" and "hd (dir @ CHR ''/'' # name) = CHR ''/''"
    and "dir = [] \<or> directory os dir" and "directory os ''/''"
    and "script_file os (dir @ CHR ''/'' # name) = Some ss"
    and "run_script B L os ss (if dir = [] then i else i\<lparr>cwd := dir\<rparr>) = Inr i'"
  shows "LoadConfigFile B L os (dir @ CHR ''/'' # name) i = Inr (i'\<lparr>cwd := ''/''\<rparr>)"
proof -
  have "ChdirContainingDirectory os (dir @ CHR ''/'' # name) i = Inr (if dir = [] then i else i\<lparr>cwd := dir\<rparr>)"
    using assms(3) absolute_split(2) [OF assms(2), of "cwd i"] by (auto simp: Chdir_parent [OF assms(1)])
  moreover have "RunFile B L os (dir @ CHR ''/'' # name) (if dir = [] then i else i\<lparr>cwd := dir\<rparr>) = Inr i'"
    using assms(5,6) unfolding RunFile_def absolute_split(1) [OF assms(2)] by simp
  moreover have "chdir os ''/'' i' = Some (i'\<lparr>cwd := ''/''\<rparr>)"
    using assms(4) by (simp add: chdir_def resolve_absolute)
  ultimately show ?thesis
    unfolding LoadConfigFile_def by simp
qed

text \<open>The libraries leave the name of the log server to the configuration.\<close>

definition log_server_law :: "startup_libs \<Rightarrow> bool" where
  "log_server_law S \<longleftrightarrow> (\<forall>name g. lua_init S name g ''log_server'' = g ''log_server'')"

lemma SetupConfigState_globals:
  "SetupConfigState B S g ''max_size'' = Some (LNumber (Finite (of_int DEFAULT_MAX_SIZE)))"
  "SetupConfigState B S g ''qmqp_listen'' = Some (LFunction ''qmqp_listen'')"
  "log_server_law S \<Longrightarrow> SetupConfigState B S g ''log_server'' = g ''log_server''"
  by (simp_all add: SetupConfigState_def RegisterLuaResolver_def log_server_law_def Let_def)

lemma plain_listen:
  assumes "globals i ''max_size'' = Some (LNumber (Finite (of_int DEFAULT_MAX_SIZE)))"
    and "globals i ''qmqp_listen'' = Some (LFunction ''qmqp_listen'')"
    and "lua_tointeger L (Finite (of_int DEFAULT_MAX_SIZE)) = DEFAULT_MAX_SIZE"
    and "create_socket os \<lparr>bind_address = address, listen = 64, mode = 438, pass_cred = True\<rparr> = Some fd"
  shows "run_stmt B L os (CallListen [LString address, LFunction f]) i =
    Inr (AddListener fd 16777216 (LFunction f) i)"
proof -
  have "GetGlobalInt L (globals i) ''max_size'' = Inr 16777216"
    unfolding assms(1) GetGlobalInt_def using assms(3)
    by (simp add: lua_tonumber_def DEFAULT_MAX_SIZE_def)
  then have "l_qmqp_listen B L os [LString address, LFunction f] i =
      Inr (AddListener fd 16777216 (LFunction f) i)"
    using assms(4) unfolding l_qmqp_listen_def
    by (simp add: arg_def is_function_def AddListenerAddress_def MakeListener_def)
  with assms(2) show ?thesis
    by (simp add: call_qmqp_listen_def)
qed

text \<open>The whole start with a file by its absolute path, whose script succeeds.\<close>

abbreviation configured :: "build \<Rightarrow> startup_libs \<Rightarrow> string \<Rightarrow> int \<Rightarrow> Instance" where
  "configured B S dir fds \<equiv> (SetupProcess (Instance_new dir fds))\<lparr>globals := SetupConfigState B S Map.empty\<rparr>"

lemma start_by_script:
  assumes "CHR ''/'' \<notin> set name" and "hd (cdir @ CHR ''/'' # name) = CHR ''/''"
    and "cdir = [] \<or> directory os cdir" and "directory os ''/''"
    and "script_file os (cdir @ CHR ''/'' # name) = Some script"
    and "run_script B L os script (if cdir = [] then configured B S dir fds
      else (configured B S dir fds)\<lparr>cwd := cdir\<rparr>) = Inr i"
    and "listeners i \<noteq> []" and "SetupLogSocket L S os (i\<lparr>cwd := ''/''\<rparr>) = Inr i'"
  shows "main B L S os [prog, ''--config'', cdir @ CHR ''/'' # name] dir fds =
    Inr (SetupRuntimeState S i'\<lparr>running := True\<rparr>)"
proof -
  have "LoadConfigFile B L os (cdir @ CHR ''/'' # name) (configured B S dir fds) = Inr (i\<lparr>cwd := ''/''\<rparr>)"
    using Load_absolute [OF assms(1-5)] assms(6) by blast
  with assms(7,8) have "Run B L S os (cdir @ CHR ''/'' # name) (SetupProcess (Instance_new dir fds)) =
      Inr (SetupRuntimeState S i'\<lparr>running := True\<rparr>)"
    by (simp add: Run_def Check_def Instance_new_def SetupProcess_def)
  then show ?thesis
    by (simp add: main_def ParseCommandLine_def)
qed

text \<open>A script that listens on one address, and one that also names a log server.\<close>

lemma plain_start:
  assumes "log_server_law S" and "lua_tointeger L (Finite (of_int DEFAULT_MAX_SIZE)) = DEFAULT_MAX_SIZE"
    and "CHR ''/'' \<notin> set name" and "hd (cdir @ CHR ''/'' # name) = CHR ''/''"
    and "cdir = [] \<or> directory os cdir" and "directory os ''/''"
    and "script_file os (cdir @ CHR ''/'' # name) = Some [CallListen [LString address, LFunction f]]"
    and "create_socket os \<lparr>bind_address = address, listen = 64, mode = 438, pass_cred = True\<rparr> = Some fd"
  shows "\<exists>i. main B L S os [prog, ''--config'', cdir @ CHR ''/'' # name] dir fds = Inr i \<and> running i \<and>
    listeners i = [\<lparr>listener_fd = fd, listener_max_size = 16777216, listener_handler = LFunction f\<rparr>] \<and>
    log_socket i = None"
proof -
  define i1 where "i1 = (if cdir = [] then configured B S dir fds else (configured B S dir fds)\<lparr>cwd := cdir\<rparr>)"
  define i2 where "i2 = AddListener fd 16777216 (LFunction f) i1"
  have i1: "globals i1 = SetupConfigState B S Map.empty" "listeners i1 = []" "log_socket i1 = None"
    by (simp_all add: i1_def Instance_new_def SetupProcess_def)
  have "run_script B L os [CallListen [LString address, LFunction f]] i1 = Inr i2"
    using plain_listen [OF _ _ assms(2,8), of i1 B f] i1(1) by (simp add: i2_def SetupConfigState_globals)
  moreover have i2: "listeners i2 = [\<lparr>listener_fd = fd, listener_max_size = 16777216, listener_handler = LFunction f\<rparr>]"
      "globals i2 ''log_server'' = None" "log_socket i2 = None"
    unfolding i2_def AddListener_def
    using i1 SetupConfigState_globals(3) [OF assms(1), of B Map.empty] by simp_all
  moreover have "SetupLogSocket L S os (i2\<lparr>cwd := ''/''\<rparr>) = Inr (i2\<lparr>cwd := ''/''\<rparr>)"
    using i2(2) by (simp add: SetupLogSocket_def)
  ultimately show ?thesis
    using start_by_script [OF assms(3-7), of B L S dir fds i2] unfolding i1_def by simp
qed

lemma logging_start:
  assumes "lua_tointeger L (Finite (of_int DEFAULT_MAX_SIZE)) = DEFAULT_MAX_SIZE"
    and "CHR ''/'' \<notin> set name" and "hd (cdir @ CHR ''/'' # name) = CHR ''/''"
    and "cdir = [] \<or> directory os cdir" and "directory os ''/''"
    and "script_file os (cdir @ CHR ''/'' # name) =
      Some [Assign ''log_server'' (LString server), CallListen [LString address, LFunction f]]"
    and "create_socket os \<lparr>bind_address = address, listen = 64, mode = 438, pass_cred = True\<rparr> = Some fd"
    and "ToSocketAddress L (LString server) (LOG_DEFAULT_PORT S) = Some a" and "connect_datagram os a"
  shows "\<exists>i. main B L S os [prog, ''--config'', cdir @ CHR ''/'' # name] dir fds = Inr i \<and> running i \<and>
    listeners i = [\<lparr>listener_fd = fd, listener_max_size = 16777216, listener_handler = LFunction f\<rparr>] \<and>
    log_socket i = Some a"
proof -
  define i1 where "i1 = (if cdir = [] then configured B S dir fds else (configured B S dir fds)\<lparr>cwd := cdir\<rparr>)"
  define i2 where "i2 = i1\<lparr>globals := (globals i1)(''log_server'' \<mapsto> LString server)\<rparr>"
  define i3 where "i3 = AddListener fd 16777216 (LFunction f) i2"
  have i1: "globals i1 = SetupConfigState B S Map.empty" "listeners i1 = []"
    by (simp_all add: i1_def Instance_new_def SetupProcess_def)
  have "run_stmt B L os (CallListen [LString address, LFunction f]) i2 = Inr i3"
    using plain_listen [OF _ _ assms(1,7), of i2 B f] i1(1) by (simp add: i2_def i3_def SetupConfigState_globals)
  then have "run_script B L os [Assign ''log_server'' (LString server), CallListen [LString address, LFunction f]] i1 = Inr i3"
    by (simp add: i2_def)
  moreover have i3: "listeners i3 = [\<lparr>listener_fd = fd, listener_max_size = 16777216, listener_handler = LFunction f\<rparr>]"
      "globals i3 ''log_server'' = Some (LString server)"
    unfolding i3_def i2_def AddListener_def using i1 by simp_all
  moreover have "SetupLogSocket L S os (i3\<lparr>cwd := ''/''\<rparr>) = Inr (i3\<lparr>cwd := ''/'', log_socket := Some a\<rparr>)"
    using i3(2) assms(8,9) by (simp add: SetupLogSocket_def)
  ultimately show ?thesis
    using start_by_script [OF assms(2-6), of B L S dir fds i3] unfolding i1_def by simp
qed

section \<open>Properties\<close>

text \<open>The functions of the libraries that run after the configuration do not bring the names of
  the configuration functions back.\<close>

definition config_names :: "string set" where
  "config_names = {''max_size'', ''qmqp_listen'', ''qmqp_resolve'', ''log_resolve'', ''control_resolve''}"

definition init_law :: "startup_libs \<Rightarrow> bool" where
  "init_law S \<longleftrightarrow> (\<forall>g x. x \<in> config_names \<longrightarrow>
     lua_init S ''XattrTable'' g x = g x \<and> lua_init S ''CgroupInfo'' g x = g x)"

lemma SetupRuntimeState_None:
  assumes "init_law S" and "x \<in> config_names"
  shows "globals (SetupRuntimeState S i) x = None"
proof -
  have keep: "lua_init S ''XattrTable'' h x = h x" "lua_init S ''CgroupInfo'' h x = h x" for h
    using assms unfolding init_law_def by blast+
  have "x = ''max_size'' \<or> x = ''qmqp_listen'' \<or> x = ''qmqp_resolve'' \<or> x = ''log_resolve'' \<or>
      x = ''control_resolve''"
    using assms(2) by (simp only: config_names_def insert_iff empty_iff simp_thms)
  then show ?thesis
    unfolding SetupRuntimeState_globals UnregisterLuaResolver_def Let_def fun_upd_apply keep
    by (elim disjE) simp_all
qed

definition ref_build :: build where
  "ref_build = \<lparr>HAVE_PG = False, HAVE_LIBSODIUM = False, HAVE_JSON = True, HAVE_JWT = False,
     HAVE_LIBSYSTEMD = True\<rparr>"

definition ref_startup :: startup_libs where
  "ref_startup = \<lparr>lua_init = (\<lambda>name g. g),
     PushResolveFunction = (\<lambda>h port. LFunction (ai_socktype h)),
     LOG_DEFAULT_PORT = 5479, CONTROL_DEFAULT_PORT = 5478\<rparr>"

definition ref_os :: "string \<Rightarrow> config_stmt list \<Rightarrow> os_env" where
  "ref_os file script = \<lparr>directory = (\<lambda>_. True),
     script_file = (\<lambda>p. if p = file then Some script else None),
     create_socket = (\<lambda>_. Some 5), connect_datagram = (\<lambda>_. True)\<rparr>"

lemma ref_init_law: "init_law ref_startup"
  by (auto simp: init_law_def config_names_def ref_startup_def)

text \<open>\<open>qmqp_listen()\<close> never accepts a size limit outside of 1 KiB to 1 GiB. If a call
  succeeds, then \<open>max_size\<close> is a number in these bounds and every listener it has added has
  exactly this limit as its unsigned 64 bit value and the given handler; existing listeners
  and global variables are untouched.\<close>

lemma qmqp_listen_bounds:
  assumes "l_qmqp_listen B L os args i = Inr i'"
  shows "\<exists>n ls. GetGlobalInt L (globals i) ''max_size'' = Inr n \<and> 1024 \<le> n \<and> n \<le> 2 ^ 30 \<and>
    globals i' = globals i \<and> listeners i' = ls @ listeners i \<and>
    (\<forall>l \<in> set ls. int (unat (listener_max_size l)) = n \<and> listener_handler l = arg args 2)"
proof -
  from listen_adds [OF assms] obtain n ls where "GetGlobalInt L (globals i) ''max_size'' = Inr n"
      "1024 \<le> n" "n \<le> 1024 * 1024 * 1024" "globals i' = globals i" "listeners i' = ls @ listeners i"
      "list_all (same_limit n (arg args 2)) ls"
    by (auto simp: adds_listeners_def)
  moreover from this have "unat (of_int n :: size64) = nat n"
    by (intro unat_of_int64) simp_all
  ultimately show ?thesis
    by (intro exI [of _ n] exI [of _ ls]) (auto simp: list_all_iff same_limit_def)
qed

lemma main_ready:
  assumes "main B L S os argv dir fds = Inr i"
  shows "running i \<and> listeners i \<noteq> [] \<and> list_all size_ok (listeners i) \<and> cwd i = ''/'' \<and>
    signals_of i = ([SIGPIPE], True, True, 0) \<and> (\<exists>j. i = SetupRuntimeState S j\<lparr>running := True\<rparr>)"
proof -
  let ?i = "(SetupProcess (Instance_new dir fds))\<lparr>globals := SetupConfigState B S Map.empty\<rparr>"
  from assms obtain path i1 i2 where i: "LoadConfigFile B L os path ?i = Inr i1"
      "Check i1 = Inr ()" "SetupLogSocket L S os i1 = Inr i2"
      "i = SetupRuntimeState S i2\<lparr>running := True\<rparr>"
    by (auto simp: main_def Run_def and_then_Inr Let_def Instance_new_def SetupProcess_def split: sum.splits)
  have i2: "listeners i2 = listeners i1" "cwd i2 = cwd i1" "signals_of i2 = signals_of i1"
    using i(3) by (auto simp: SetupLogSocket_def split: option.splits if_splits)
  have "adds_listeners size_ok ?i i1" "cwd i1 = ''/''"
    using LoadConfigFile_adds [OF i(1)] by auto
  moreover have "listeners i1 \<noteq> []"
    using i(2) by (simp add: Check_def split: if_splits)
  ultimately show ?thesis
    using i(4) i2 by (auto simp: adds_listeners_def Instance_new_def SetupProcess_def)
qed

lemma main_listeners_ok: "main B L S os argv dir fds = Inr i \<Longrightarrow> list_all size_ok (listeners i)"
  using main_ready by blast

text \<open>C39: When the server runs, whatever the configuration script did, there is at least one
  listener; every listener's size limit is between 1 KiB and 1 GiB; the working directory is
  the root, \<open>SIGPIPE\<close> is ignored; and the functions and variables of the configuration are gone from the Lua
  state, which knows the classes of mails and actions. In every other case the program exits
  with status 1.\<close>

theorem server_ready:
  assumes "init_law S"
  shows "case main B L S os argv dir fds of
      Inl status \<Rightarrow> status = EXIT_FAILURE
    | Inr i \<Rightarrow> running i \<and> listeners i \<noteq> [] \<and> list_all size_ok (listeners i) \<and> cwd i = ''/'' \<and>
        ignored_signals i = [SIGPIPE] \<and> (\<forall>x \<in> config_names. globals i x = None) \<and>
        metatables i ''qrelay.action'' \<noteq> None \<and>
        metatables i ''qrelay.mail'' = Some [''__close'', ''__index'', ''__newindex'']"
proof (cases "main B L S os argv dir fds")
  case (Inl status)
  then show ?thesis
    by (auto simp: main_def split: sum.splits)
next
  case (Inr i)
  with main_ready [OF Inr] SetupRuntimeState_None [OF assms] show ?thesis
    by auto
qed

definition plain_config :: "config_stmt list" where
  "plain_config = [CallListen [LString ''/run/qrelay'', LFunction ''handler'']]"

definition plain_os :: os_env where
  "plain_os = ref_os ''/etc/qrelay.lua'' plain_config"

lemma plain_laws:
  "log_server_law ref_startup"
  "lua_tointeger ref_libs (Finite (of_int DEFAULT_MAX_SIZE)) = DEFAULT_MAX_SIZE"
  "directory plain_os d"
  "script_file plain_os ''/etc/qrelay.lua'' = Some [CallListen [LString ''/run/qrelay'', LFunction ''handler'']]"
  "create_socket plain_os conf = Some 5"
  by (simp_all add: log_server_law_def ref_startup_def ref_libs_def plain_os_def ref_os_def plain_config_def)

lemma plain_os_starts:
  "\<exists>i. main ref_build ref_libs ref_startup plain_os [''qrelay'', ''--config'', ''/etc/qrelay.lua''] ''/root'' 0 =
      Inr i"
  using plain_start [of ref_startup ref_libs "''qrelay.lua''" "''/etc''" plain_os "''/run/qrelay''"
      "''handler''" 5 ref_build "''qrelay''" "''/root''" 0]
  by (auto simp: plain_laws)

theorem server_ready_witness:
  "\<exists>i. main ref_build ref_libs ref_startup plain_os [''qrelay'', ''--config'', ''/etc/qrelay.lua''] ''/root'' 0 =
      Inr i \<and> running i \<and> list_all size_ok (listeners i) \<and> globals i ''qmqp_listen'' = None"
proof -
  obtain i where "main ref_build ref_libs ref_startup plain_os
      [''qrelay'', ''--config'', ''/etc/qrelay.lua''] ''/root'' 0 = Inr i"
    using plain_os_starts by blast
  with server_ready [OF ref_init_law, of ref_build ref_libs plain_os
      "[''qrelay'', ''--config'', ''/etc/qrelay.lua'']" "''/root''" 0]
  show ?thesis
    by (auto simp: config_names_def)
qed

text \<open>C40: A configuration file given by a relative path with a directory is not found. The
  program first changes to the directory of the file and then opens the unchanged relative
  path, so that what it runs, or fails to run, is \<open>dir/dir/name\<close> instead of \<open>dir/name\<close>,
  whatever that file contains.\<close>

theorem relative_config_path:
  assumes "CHR ''/'' \<notin> set name" and "cdir \<noteq> []" and "hd cdir \<noteq> CHR ''/''"
    and "cwd i \<noteq> ''/''" and "directory os (cwd i @ ''/'' @ cdir)"
    and "script_file os (cwd i @ ''/'' @ cdir @ ''/'' @ cdir @ ''/'' @ name) = None"
  shows "LoadConfigFile B L os (cdir @ ''/'' @ name) i =
    Inl (SystemError (''cannot open '' @ cdir @ ''/'' @ name))"
proof -
  have dir: "resolve (cwd i) cdir = cwd i @ ''/'' @ cdir"
    using assms(2-4) by (simp add: resolve_def)
  then have "ChdirContainingDirectory os (cdir @ CHR ''/'' # name) i =
      Inr (i\<lparr>cwd := cwd i @ ''/'' @ cdir\<rparr>)"
    using assms(2,5) Chdir_parent [OF assms(1), of os cdir i] by simp
  moreover have "cwd i @ ''/'' @ cdir \<noteq> ''/''"
    using assms(2) by (cases "cwd i") auto
  then have "resolve (cwd i @ ''/'' @ cdir) (cdir @ CHR ''/'' # name) =
      cwd i @ ''/'' @ cdir @ ''/'' @ cdir @ ''/'' @ name"
    using assms(2,3) by (simp add: resolve_def)
  ultimately show ?thesis
    using assms(6) by (simp add: LoadConfigFile_def RunFile_def)
qed

theorem relative_config_path_witness:
  "LoadConfigFile ref_build ref_libs (ref_os ''/root/conf/qrelay.lua'' plain_config) ''conf/qrelay.lua''
      (Instance_new ''/root'' 0) = Inl (SystemError ''cannot open conf/qrelay.lua'')"
  using relative_config_path [of "''qrelay.lua''" "''conf''" "Instance_new ''/root'' 0"
      "ref_os ''/root/conf/qrelay.lua'' plain_config" ref_build ref_libs]
  by (simp add: Instance_new_def ref_os_def)

text \<open>Socket activation. The sockets passed by systemd are numbered from 3; the first
  \<open>qmqp_listen(systemd, ...)\<close> takes all of them, each with the same limit and handler, and a
  second one finds none and changes no listener.\<close>

lemma systemd_sockets:
  assumes "listen_fds i = int n"
  shows "map listener_fd (listeners (AddSystemdListener m f i)) =
      rev (map (\<lambda>k. 3 + int k) [0..<n]) @ map listener_fd (listeners i) \<and>
    listeners (AddSystemdListener m' g (AddSystemdListener m f i)) =
      listeners (AddSystemdListener m f i)"
  using assms
  by (auto simp: AddSystemdListener_def Let_def foldl_AddListener rev_map comp_def)
    (simp_all add: SD_LISTEN_FDS_START_def)

end
