(* ===== verification/SizeLimits.thy ===== *)
theory SizeLimits
  imports Views Startup
begin

text \<open>
  The size limit of a listener, from the configuration to the mails: \<open>qmqp_listen()\<close> takes
  \<open>max_size\<close> from the configuration (\<open>src/Main.cxx\<close>), the listener passes it to each connection,
  and its netstring server refuses larger requests. So the size of every mail object in the
  running server is bounded, whatever the clients send and the scripts do.
\<close>

section \<open>The limit of a connection\<close>

lemma answers_max_size: "answers L E s c0 c' \<Longrightarrow> max_size c' = max_size c0"
  by (simp add: answers_def)

lemma turns_max_size:
  assumes "turns L E e c c'"
  shows "max_size c' = max_size c"
  using assms
proof (cases rule: turns.cases)
  case (action k m a)
  from action(7) show ?thesis
    by (auto simp: action_outcome_def relaying_def dest!: answers_max_size split: action_type.splits)
qed (auto simp: mail_accepted_def run_lua_call_def Let_def dest!: answers_max_size)

text \<open>What no script and no step changes about the mails of others, and what each new mail meets:
  its buffer is a request within the limit.\<close>

definition buffers_within :: "nat \<Rightarrow> lua_heap \<Rightarrow> bool" where
  "buffers_within n h \<longleftrightarrow> (\<forall>k m. h k = Some m \<longrightarrow> \<not> IsStale m \<longrightarrow> length (array_bytes (buffer m)) \<le> n)"

lemma buffers_within_close: "buffers_within n h \<Longrightarrow> buffers_within n (foldr close_mail ks h)"
  by (induction ks) (auto simp: buffers_within_def close_mail_def split: option.splits if_splits)

lemma buffers_within_call:
  assumes "buffers_within n h"
  shows "buffers_within n (heap_after (lua_exec L call h) h)"
  unfolding buffers_within_def
proof (intro allI impI)
  fix k m'
  assume m': "heap_after (lua_exec L call h) h k = Some m'" "\<not> IsStale m'"
  then obtain m where "h k = Some m"
    using lua_exec_after(2) [of L call h] by blast
  with lua_exec_after(3) [where h = h and k = k and m = m and L = L and c = call] m' assms
  show "length (array_bytes (buffer m')) \<le> n"
    by (auto simp: buffers_within_def same_content_def IsStale_def)
qed

lemma buffers_within_answers:
  "answers L E s c0 c' \<Longrightarrow> buffers_within n (lua_heap c0) \<Longrightarrow> buffers_within n (lua_heap c')"
  by (simp add: answers_def buffers_within_close)

lemma turns_buffers_within:
  assumes "turns L E e c c'" and "conn_enabled E c e" and "unat (max_size c) \<le> n"
    and "buffers_within n (lua_heap c)"
  shows "buffers_within n (lua_heap c')"
  using assms(1)
proof (cases rule: turns.cases)
  case (request_ok payload mail)
  then have "buffer mail = payload"
    using Parse_frame_mutable(1) [of L _ "new_mutable_mail payload"]
    by (auto simp: MutableMail_Parse_def new_mutable_mail_def)
  with request_ok assms(2-4) show ?thesis
    by (auto simp: buffers_within_def mail_accepted_def NewLuaMail_def received_mail_def
        NewIncomingMail_def MutableMail.extend_def)
next
  case (script call)
  with assms(4) show ?thesis
    by (simp add: buffers_within_call)
next
  case (action k m a)
  from action(7) show ?thesis
  proof (cases rule: action_outcome_cases)
    case (answered c0 s)
    with assms(4) buffers_within_answers [OF answered(1)] show ?thesis by simp
  next
    case (relays r)
    with assms(4) show ?thesis by (simp add: relaying_def)
  qed
qed (use assms(4) in \<open>auto simp: buffers_within_close elim!: buffers_within_answers\<close>)

section \<open>The limit of the server\<close>

definition limits_ok :: "nat \<Rightarrow> server \<Rightarrow> bool" where
  "limits_ok n s \<longleftrightarrow> buffers_within n (srv_heap s) \<and>
     list_all (\<lambda>l. unat (listener_max_size l) \<le> n) (srv_listeners s) \<and>
     (\<forall>i c. conns s i = Some c \<longrightarrow> unat (max_size c) \<le> n)"

lemma server_step_listeners: "server_step L E e s = Inr s' \<Longrightarrow> srv_listeners s' = srv_listeners s"
  by (cases e) (auto simp: server_accept_def server_conn_def and_then_Inr split: option.splits)

lemma server_limits:
  assumes "libs_ok L" and "server_trace L es s"
    and "list_all (\<lambda>l. unat (listener_max_size l) \<le> n) (srv_listeners s)"
  shows "limits_ok n s"
  using assms(2,3)
proof (induction rule: server_trace.induct)
  case (start as ls)
  then show ?case
    by (simp add: limits_ok_def buffers_within_def)
next
  case (step es s E e s')
  then have s: "limits_ok n s" "srv_listeners s' = srv_listeners s"
    using server_step_listeners [OF step.hyps(3)] by simp_all
  show ?case
  proof (cases e)
    case (Accept l i t p)
    with step.hyps(2,3) s show ?thesis
      by (auto simp: limits_ok_def server_accept_def connection_new_def list_all_iff split: if_splits)
  next
    case (Conn i x)
    with step.hyps(2,3) obtain c c' where c: "conns s i = Some c" "conn_enabled E (attach s c) x"
        "conn_step L E x (attach s c) = Inr c'" "srv_heap s' = lua_heap c'" "conns s' = (conns s)(i \<mapsto> c')"
      by (auto simp: server_conn_def and_then_Inr split: option.splits)
    have t: "turns L E x (attach s c) c'"
      using trace_turns [OF assms(1) server_invD(1)
          [OF server_trace_inv [OF assms(1) step.hyps(1)] c(1)] c(2,3)] by simp
    have "unat (max_size (attach s c)) \<le> n"
      using s(1) c(1) by (simp add: limits_ok_def attach_def)
    with turns_buffers_within [OF t c(2) this] turns_max_size [OF t] s c(4,5) show ?thesis
      by (auto simp: limits_ok_def)
  qed
qed

text \<open>The parts of a live mail are parts of its buffer.\<close>

lemma loose_netstrings_length:
  "list_all2 loose_netstring ss vs \<Longrightarrow> length (concat vs) \<le> length (concat ss)"
  by (induction rule: list_all2_induct) (auto simp: loose_netstring_def)

lemma fields_within:
  assumes "fields_ok m" and "envelope_ok L m" and "length (array_bytes (buffer m)) \<le> n"
  shows "length (message m) \<le> n \<and> length (tail m) \<le> n \<and> length (concat (recipients m)) \<le> n \<and>
    (sender_buffer m = [] \<longrightarrow> length (sender m) \<le> n)"
proof -
  obtain b where b: "buffer m = Some b" "length b \<le> n" "sublist (message m) b" "sublist (tail m) b"
      "sublist (sender m) (if sender_buffer m = [] then b else sender_buffer m)"
    using assms(1,3) by (auto simp: fields_ok_def array_bytes_def)
  obtain ss where "list_all2 loose_netstring ss (recipients m)" "tail m = '','' @ concat ss"
    using assms(2) by (auto simp: envelope_ok_def)
  then have "length (concat (recipients m)) \<le> length (tail m)"
    using loose_netstrings_length [of ss "recipients m"] by simp
  with b(2) sublist_length_le [OF b(3)] sublist_length_le [OF b(4)] sublist_length_le [OF b(5)]
  show ?thesis
    by (cases "sender_buffer m = []") simp_all
qed

lemma main_mail_within:
  assumes "libs_ok L" and "main B L' S sys argv dir fds = Inr i" and "server_trace L es s"
    and "srv_listeners s = listeners i" and "srv_heap s k = Some m" and "\<not> IsStale m"
  shows "length (array_bytes (buffer m)) \<le> 2 ^ 30 \<and> length (message m) \<le> 2 ^ 30 \<and>
    length (tail m) \<le> 2 ^ 30 \<and> length (concat (recipients m)) \<le> 2 ^ 30 \<and>
    (sender_buffer m = [] \<longrightarrow> length (sender m) \<le> 2 ^ 30)"
proof -
  have "list_all (\<lambda>l. unat (listener_max_size l) \<le> 2 ^ 30) (srv_listeners s)"
    using main_listeners_ok [OF assms(2)] assms(4) by (auto simp: list_all_iff size_ok_def)
  then have "buffers_within (2 ^ 30) (srv_heap s)"
    using server_limits [OF assms(1,3)] by (simp add: limits_ok_def)
  then have "length (array_bytes (buffer m)) \<le> 2 ^ 30"
    using assms(5,6) by (simp add: buffers_within_def)
  moreover have "fields_ok m"
    using server_views_ok [OF assms(1,3)] assms(5,6) by (simp add: views_ok_def)
  moreover have "envelope_ok L m"
    using server_trace_inv [OF assms(1,3)] assms(5,6)
    by (auto simp: server_inv_def mail_ok_def dest: heap_okD)
  ultimately show ?thesis
    using fields_within [of m L "2 ^ 30"] by blast
qed

section \<open>Properties\<close>

text \<open>C13: The size limit holds from the configuration to the last mail. In a server that \<open>main()\<close>
  has started with any configuration script, the received buffer of every live mail object
  has at most a gibibyte, and so have the message, the recipients and their wire form, and
  the sender unless a script has assigned it, in every state the server can reach.\<close>

theorem mail_sizes:
  assumes "libs_ok L" and "main B L' S sys argv dir fds = Inr i" and "server_trace L es s"
    and "srv_listeners s = listeners i" and "srv_heap s k = Some m" and "\<not> IsStale m"
  shows "length (array_bytes (buffer m)) \<le> 2 ^ 30 \<and> length (message m) \<le> 2 ^ 30 \<and>
    length (tail m) \<le> 2 ^ 30 \<and> length (concat (recipients m)) \<le> 2 ^ 30 \<and>
    (sender_buffer m = [] \<longrightarrow> length (sender m) \<le> 2 ^ 30)"
  using assms by (rule main_mail_within)

theorem mail_sizes_witness:
  "\<exists>m. srv_heap sample_received 0 = Some m \<and> length (message m) \<le> 2 ^ 30"
proof -
  obtain i where i: "main ref_build ref_libs ref_startup plain_os [''qrelay'', ''--config'', ''/etc/qrelay.lua'']
      ''/root'' 0 = Inr i" "listeners i = [sample_listener]"
    using plain_start [of ref_startup ref_libs "''qrelay.lua''" "''/etc''" plain_os "''/run/qrelay''"
        "''handler''" 5 ref_build "''qrelay''" "''/root''" 0]
    by (auto simp: plain_laws sample_listener_def)
  have s: "srv_listeners sample_received = listeners i"
    by (simp add: i(2) sample_received_def sample_accepted_def server_accept_def)
  show ?thesis
    using mail_sizes [OF ref_libs_ok i(1) sample_received_trace s, of 0]
    by (simp add: sample_received_def NewIncomingMail_fields)
qed

end
