(* ===== verification/Shutdown.thy ===== *)
theory Shutdown
  imports SizeLimits
begin

text \<open>
  The end of the server. A signal makes \<open>Instance::OnShutdown()\<close> (\<open>src/Instance.cxx\<close>) break the
  event loop; \<open>Run()\<close> (\<open>src/Main.cxx\<close>) returns and destroys the instance, whose listeners
  delete the connections that are left. Their destructors run as at any other time: the
  mails are logged as canceled and closed, and the children terminated.
\<close>

section \<open>Signals\<close>

datatype process_signal = TerminateSignal | HangupSignal

text \<open>A signal reaches its handler while the event source is enabled.\<close>

definition on_signal :: "build \<Rightarrow> process_signal \<Rightarrow> Instance \<Rightarrow> Instance" where
  "on_signal B g i =
     (case g of
        TerminateSignal \<Rightarrow> if shutdown_listener i then OnShutdown B i else i
      | HangupSignal \<Rightarrow> if sighup_event i then OnReload i else i)"

text \<open>The event loop, as far as signals are concerned, ends with \<open>Break()\<close>; then \<open>Run()\<close> returns.\<close>

primrec loop_signals :: "build \<Rightarrow> process_signal list \<Rightarrow> Instance \<Rightarrow> Instance" where
  "loop_signals B [] i = i"
| "loop_signals B (g # gs) i = (if running i then loop_signals B gs (on_signal B g i) else i)"

definition Run_returns :: "Instance \<Rightarrow> int option" where
  "Run_returns i = (if running i then None else Some 0)"

lemma loop_stopped: "\<not> running i \<Longrightarrow> loop_signals B gs i = i"
  by (cases gs) simp_all

text \<open>The sources stay enabled until the shutdown, and each hang-up before it is one reload.\<close>

lemma loop_shutdown:
  assumes "running i" and "shutdown_listener i" and "sighup_event i" and "TerminateSignal \<in> set gs"
  shows "\<not> running (loop_signals B gs i) \<and> \<not> shutdown_listener (loop_signals B gs i) \<and>
    \<not> sighup_event (loop_signals B gs i) \<and> \<not> zombie_reaper (loop_signals B gs i) \<and>
    reloads (loop_signals B gs i) = reloads i + length (takeWhile (\<lambda>g. g = HangupSignal) gs)"
  using assms
proof (induction gs arbitrary: i)
  case (Cons g gs)
  show ?case
  proof (cases g)
    case TerminateSignal
    with Cons.prems have "loop_signals B (g # gs) i = OnShutdown B i"
      by (simp add: on_signal_def loop_stopped OnShutdown_def Let_def)
    with TerminateSignal show ?thesis
      by (simp add: OnShutdown_def Let_def)
  next
    case HangupSignal
    with Cons show ?thesis
      by (simp add: on_signal_def OnReload_def)
  qed
qed simp

section \<open>The connections that are left\<close>

text \<open>The destructor of a listener deletes its connections one after the other.\<close>

definition dispose_connection :: "libs \<Rightarrow> conn_env \<Rightarrow> nat \<Rightarrow> server \<Rightarrow> crash + server" where
  "dispose_connection L E i s =
     (case conns s i of
        None \<Rightarrow> Inr s
      | Some c \<Rightarrow>
          if destroyed c then Inr s
          else
            and_then (delete_connection L E (attach s c)) (\<lambda>c'.
            Inr (s\<lparr>srv_heap := lua_heap c', srv_actions := lua_actions c', conns := (conns s)(i \<mapsto> c')\<rparr>)))"

primrec dispose_connections :: "libs \<Rightarrow> conn_env \<Rightarrow> nat list \<Rightarrow> server \<Rightarrow> crash + server" where
  "dispose_connections L E [] s = Inr s"
| "dispose_connections L E (i # is) s =
     and_then (dispose_connection L E i s) (dispose_connections L E is)"

text \<open>What disposing of a connection leaves of it: a connection that has already ended is as it
  was, any other has ended without a response and without its child.\<close>

definition disposed :: "connection \<Rightarrow> connection \<Rightarrow> bool" where
  "disposed c c' \<longleftrightarrow> destroyed c' \<and> (if destroyed c then c' = c
     else responses c' = [] \<and> killed c' = relay_kills c \<and> auto_close_list c' = auto_close_list c)"

lemma dispose_connection_step:
  assumes "libs_ok L" and "server_trace L es s" and "conns s i = Some c"
  shows "\<exists>s' es' c'. dispose_connection L E i s = Inr s' \<and> server_trace L es' s' \<and>
    conns s' = (conns s)(i \<mapsto> c') \<and> disposed c c'"
proof (cases "destroyed c")
  case True
  with assms(2,3) show ?thesis
    by (intro exI [of _ s] exI [of _ es] exI [of _ c])
      (auto simp: dispose_connection_def disposed_def)
next
  case False
  let ?c = "attach s c" and ?e = "Conn i EvDisconnect"
  have en: "server_enabled E s ?e"
    using assms(3) False by simp
  obtain s' where s': "server_step L E ?e s = Inr s'"
    using server_total [OF assms(1,2) en] by auto
  then obtain c' where c': "conn_step L E EvDisconnect ?c = Inr c'"
      "s' = s\<lparr>srv_heap := lua_heap c', srv_actions := lua_actions c', conns := (conns s)(i \<mapsto> c')\<rparr>"
    using assms(3) by (auto simp: server_conn_def and_then_Inr)
  have "alive L ?c \<and> turns L E EvDisconnect ?c c'"
    using trace_turns [OF assms(1) server_invD(1) [OF server_trace_inv [OF assms(1,2)] assms(3)] _ c'(1)]
      False by simp
  then have "disposed c c'"
    using False by (auto simp: disposed_def alive_def relay_kills_def attach_def elim: turns.cases)
  moreover have "dispose_connection L E i s = Inr s'"
    using c' assms(3) False by (simp add: dispose_connection_def OnDisconnect_def)
  ultimately show ?thesis
    using server_trace.step [OF assms(2) en s'] c'(2) by auto
qed

lemma dispose_connections_all:
  assumes "libs_ok L" and "server_trace L es s" and "\<forall>i \<in> set is. conns s i \<noteq> None"
  shows "\<exists>s' es'. dispose_connections L E is s = Inr s' \<and> server_trace L es' s' \<and>
    (\<forall>i. i \<notin> set is \<longrightarrow> conns s' i = conns s i) \<and>
    (\<forall>i \<in> set is. \<forall>c. conns s i = Some c \<longrightarrow> (\<exists>c'. conns s' i = Some c' \<and> disposed c c'))"
  using assms(2,3)
proof (induction "is" arbitrary: s es)
  case Nil
  then show ?case
    by auto
next
  case (Cons i "is")
  then obtain c where c: "conns s i = Some c"
    by auto
  obtain s1 es1 c1 where s1: "dispose_connection L E i s = Inr s1" "server_trace L es1 s1"
      "conns s1 = (conns s)(i \<mapsto> c1)" "disposed c c1"
    using dispose_connection_step [OF assms(1) Cons.prems(1) c] by blast
  with Cons.prems(2) have "\<forall>i \<in> set is. conns s1 i \<noteq> None"
    by auto
  from Cons.IH [OF s1(2) this] obtain s' es' where s': "dispose_connections L E is s1 = Inr s'"
      "server_trace L es' s'" "\<And>j. j \<notin> set is \<Longrightarrow> conns s' j = conns s1 j"
      "\<And>j d. j \<in> set is \<Longrightarrow> conns s1 j = Some d \<Longrightarrow> \<exists>d'. conns s' j = Some d' \<and> disposed d d'"
    by blast
  have i: "\<exists>c'. conns s' i = Some c' \<and> disposed c c'"
  proof (cases "i \<in> set is")
    case True
    then obtain c' where "conns s' i = Some c'" "disposed c1 c'"
      using s'(4) [of i c1] s1(3) by auto
    with s1(4) show ?thesis
      by (auto simp: disposed_def split: if_splits)
  next
    case False
    with s'(3) s1(3,4) show ?thesis
      by auto
  qed
  have "\<exists>d'. conns s' j = Some d' \<and> disposed d d'" if "j \<in> set is" "j \<noteq> i" "conns s j = Some d" for j d
    using s'(4) [of j d] that s1(3) by auto
  with i c have "\<forall>j \<in> set (i # is). \<forall>d. conns s j = Some d \<longrightarrow> (\<exists>d'. conns s' j = Some d' \<and> disposed d d')"
    by (metis option.inject set_ConsD)
  moreover have "\<forall>j. j \<notin> set (i # is) \<longrightarrow> conns s' j = conns s j"
    using s'(3) s1(3) by simp
  moreover have "dispose_connections L E (i # is) s = Inr s'"
    using s1(1) s'(1) by (simp add: and_then_Inr)
  ultimately show ?case
    using s'(2) by blast
qed

section \<open>Properties\<close>

text \<open>C38: The server ends in order. A server that \<open>main()\<close> has started reloads on each hang-up signal
  and leaves its event loop at the first signal that asks for its end, with all signal
  handlers disabled and exit status 0. Whatever connections are left then, in whatever order
  they are deleted: nothing goes wrong, every one of them ends without a response, with the
  child of its relay terminated, and with no relay, timer or coroutine left and its mail
  closed; those that had ended before are as they were.\<close>

theorem server_shutdown:
  assumes "libs_ok L" and "main B L' S sys argv dir fds = Inr i" and "TerminateSignal \<in> set gs"
    and "server_trace L es s" and "set ks = {k. conns s k \<noteq> None}"
  shows "reloads (loop_signals B gs i) = length (takeWhile (\<lambda>g. g = HangupSignal) gs) \<and>
    Run_returns (loop_signals B gs i) = Some 0 \<and>
    (\<exists>s'. dispose_connections L E ks s = Inr s' \<and> (\<forall>k c. conns s k = Some c \<longrightarrow>
       (\<exists>c'. conns s' k = Some c' \<and> disposed c c' \<and> relay_operation c' = None \<and> relay_timeout c' = None \<and>
         \<not> lua_running c' \<and> (\<forall>j \<in> set (auto_close_list c'). stale_in (srv_heap s') j))))"
proof (intro conjI)
  have i: "running i" "shutdown_listener i" "sighup_event i" "reloads i = 0"
    using main_ready [OF assms(2)] by simp_all
  from loop_shutdown [OF i(1-3) assms(3)] i(4)
  show "reloads (loop_signals B gs i) = length (takeWhile (\<lambda>g. g = HangupSignal) gs)"
    and "Run_returns (loop_signals B gs i) = Some 0"
    by (simp_all add: Run_returns_def)
  obtain s' es' where s': "dispose_connections L E ks s = Inr s'" "server_trace L es' s'"
      "\<forall>k \<in> set ks. \<forall>c. conns s k = Some c \<longrightarrow> (\<exists>c'. conns s' k = Some c' \<and> disposed c c')"
    using dispose_connections_all [OF assms(1,4), of ks E] assms(5) by auto
  have "dead L (attach s' c')" if "conns s' k = Some c'" "destroyed c'" for k c'
    using trace_dead [OF assms(1) server_invD(1) [OF server_trace_inv [OF assms(1) s'(2)] that(1)]] that(2)
    by simp
  then have dead: "relay_operation c' = None \<and> relay_timeout c' = None \<and> \<not> lua_running c' \<and>
      (\<forall>j \<in> set (auto_close_list c'). stale_in (srv_heap s') j)"
    if "conns s' k = Some c'" "destroyed c'" for k c'
    using that by (fastforce simp: dead_def attach_def list_all_iff)
  have "\<exists>c'. conns s' k = Some c' \<and> disposed c c' \<and> relay_operation c' = None \<and> relay_timeout c' = None \<and>
      \<not> lua_running c' \<and> (\<forall>j \<in> set (auto_close_list c'). stale_in (srv_heap s') j)"
    if k: "conns s k = Some c" for k c
  proof -
    have "k \<in> set ks"
      using k assms(5) by simp
    with s'(3) k obtain c' where "conns s' k = Some c'" "disposed c c'"
      by blast
    with dead [of k c'] show ?thesis
      by (auto simp: disposed_def)
  qed
  with s'(1) show "\<exists>s'. dispose_connections L E ks s = Inr s' \<and> (\<forall>k c. conns s k = Some c \<longrightarrow>
       (\<exists>c'. conns s' k = Some c' \<and> disposed c c' \<and> relay_operation c' = None \<and> relay_timeout c' = None \<and>
         \<not> lua_running c' \<and> (\<forall>j \<in> set (auto_close_list c'). stale_in (srv_heap s') j)))"
    by blast
qed

theorem server_shutdown_witness:
  "\<exists>s' c'. dispose_connections ref_libs sample_env [0, 2] sample_second = Inr s' \<and>
    conns s' 0 = Some c' \<and> destroyed c' \<and> responses c' = [] \<and> killed c' = 0"
proof -
  obtain i where i: "main ref_build ref_libs ref_startup plain_os [''qrelay'', ''--config'', ''/etc/qrelay.lua'']
      ''/root'' 0 = Inr i"
    using plain_os_starts by blast
  have ks: "set [0, 2] = {k. conns sample_second k \<noteq> None}"
    by (auto simp: sample_second_def server_accept_def sample_received_def sample_accepted_def)
  have "\<exists>s'. dispose_connections ref_libs sample_env [0, 2] sample_second = Inr s' \<and>
      (\<forall>k c. conns sample_second k = Some c \<longrightarrow> (\<exists>c'. conns s' k = Some c' \<and> disposed c c' \<and>
         relay_operation c' = None \<and> relay_timeout c' = None \<and> \<not> lua_running c' \<and>
         (\<forall>j \<in> set (auto_close_list c'). stale_in (srv_heap s') j)))"
    using server_shutdown [OF ref_libs_ok i _ sample_second_trace ks, of "[HangupSignal, TerminateSignal]" sample_env]
    by simp
  then obtain s' where s': "dispose_connections ref_libs sample_env [0, 2] sample_second = Inr s'"
      "\<And>k c. conns sample_second k = Some c \<Longrightarrow> \<exists>c'. conns s' k = Some c' \<and> disposed c c'"
    by blast
  then obtain c' where "conns s' 0 = Some c'" "disposed (sample_lua DISCARD) c'"
    using sample_second_conns(1) by blast
  with s'(1) show ?thesis
    by (auto simp: disposed_def relay_kills_def)
qed

end
