(* ===== verification/Accounting.thy ===== *)
theory Accounting
  imports Execution Shutdown
begin

text \<open>
  Every mail is accounted for. The log socket belongs to the instance and is set up once, from
  the configuration; the connections ask the instance for it. Here the two are put together:
  what the log server receives over the whole life of a server.
\<close>

section \<open>The log socket\<close>

text \<open>\<open>GetLogSocket()\<close>: the descriptor is defined if \<open>SetupLogSocket()\<close> has connected it.\<close>

definition GetLogSocket :: "Instance \<Rightarrow> socket_address option" where
  "GetLogSocket i = log_socket i"

text \<open>The environment of every event of a server with this instance.\<close>

definition logs_for :: "Instance \<Rightarrow> conn_env list \<Rightarrow> bool" where
  "logs_for i Es \<longleftrightarrow> list_all (\<lambda>E. log_defined E = (GetLogSocket i \<noteq> None)) Es"

text \<open>Whether there is a log socket is up to the configuration: its variable \<open>log_server\<close>.\<close>

lemma log_socket_config:
  assumes "log_server_law S" and "main B L S sys argv dir fds = Inr i"
  shows "GetLogSocket i =
      (case globals i ''log_server'' of None \<Rightarrow> None | Some v \<Rightarrow> ToSocketAddress L v (LOG_DEFAULT_PORT S))"
    and "GetLogSocket i = None \<longleftrightarrow> globals i ''log_server'' = None"
proof -
  let ?i = "(SetupProcess (Instance_new dir fds))\<lparr>globals := SetupConfigState B S Map.empty\<rparr>"
  from assms(2) obtain path i1 i2 where i: "LoadConfigFile B L sys path ?i = Inr i1"
      "SetupLogSocket L S sys i1 = Inr i2" "i = SetupRuntimeState S i2\<lparr>running := True\<rparr>"
    by (auto simp: main_def Run_def and_then_Inr Let_def Instance_new_def SetupProcess_def split: sum.splits)
  have "log_socket i1 = None"
    using LoadConfigFile_adds [OF i(1)] by (simp add: adds_listeners_def Instance_new_def SetupProcess_def)
  moreover have "globals i ''log_server'' = globals i2 ''log_server''"
    using assms(1) unfolding i(3) log_server_law_def
    by (simp add: SetupRuntimeState_globals UnregisterLuaResolver_def)
  ultimately show "GetLogSocket i =
      (case globals i ''log_server'' of None \<Rightarrow> None | Some v \<Rightarrow> ToSocketAddress L v (LOG_DEFAULT_PORT S))"
      and "GetLogSocket i = None \<longleftrightarrow> globals i ''log_server'' = None"
    using i(2,3) by (auto simp: SetupLogSocket_def GetLogSocket_def split: option.splits if_splits)
qed

section \<open>One datagram for each mail\<close>

text \<open>The mails a connection has received: the requests that can be parsed.\<close>

definition mails_received :: "libs \<Rightarrow> conn_event list \<Rightarrow> nat" where
  "mails_received L es =
     length (filter (\<lambda>p. fst (MutableMail_Parse L (new_mutable_mail p)) = SUCCESS) (requests es))"

lemma mails_received_simps [simp]:
  "mails_received L [] = 0"
  "mails_received L (es @ [e]) = mails_received L es + mails_received L [e]"
  by (simp_all add: mails_received_def requests_def)

lemma mails_received_event:
  "mails_received L [EvRequest p] =
    (if fst (MutableMail_Parse L (new_mutable_mail p)) = SUCCESS then 1 else 0)"
  "request_of e = [] \<Longrightarrow> mails_received L [e] = 0"
  by (simp_all add: mails_received_def requests_def)

text \<open>A connection has an object for each of them; when it has ended, it has sent a datagram for
  each, if there is a log socket, and none before.\<close>

definition accounted :: "bool \<Rightarrow> nat \<Rightarrow> connection \<Rightarrow> bool" where
  "accounted b n c \<longleftrightarrow> length (auto_close_list c) = n \<and> n \<le> 1 \<and>
     length (datagrams c) = (if destroyed c \<and> b then n else 0)"

lemma turns_objects:
  assumes "turns L E e c c'"
  shows "length (auto_close_list c') = length (auto_close_list c) + mails_received L [e]"
  using assms
proof (cases rule: turns.cases)
  case (action k m a)
  from action(7) show ?thesis
  proof (cases rule: action_outcome_cases)
    case (answered c0 s)
    with action(1) show ?thesis by (simp add: answers_def mails_received_event)
  next
    case (relays r)
    with action(1) show ?thesis by (simp add: relaying_def mails_received_event)
  qed
qed (auto simp: answers_def mail_accepted_def mails_received_event)

text \<open>What is logged at the end.\<close>

lemma ended_datagrams:
  assumes "alive L c" and "turns L E e c c'" and "destroyed c'"
  shows "length (datagrams c') = (if log_defined E then length (auto_close_list c) else 0)"
proof -
  obtain c0 rs where c0: "c' = ended L E (final_words e c') rs c0" "mail_ptr c0 = mail_ptr c"
      "lua_heap c0 = lua_heap c" "datagrams c0 = []"
    using turns_end [OF assms] by blast
  then have "datagrams c' = log_entry L E (final_words e c') c0"
    by (metis append_Nil ended_sel(12))
  then show ?thesis
    using alive_ending [OF assms(1)] c0(2,3)
    by (auto simp: ending_def has_mail_def live_in_def log_entry_def)
qed

lemma accounted_step:
  assumes "libs_ok L" and "conn_trace L es c" and "conn_enabled E c e"
    and "conn_step L E e c = Inr c'" and "accounted b n c" and "log_defined E = b"
  shows "accounted b (n + mails_received L [e]) c'"
proof -
  have c: "alive L c" "turns L E e c c'"
    using trace_turns [OF assms(1-4)] by simp_all
  have n: "length (auto_close_list c') = n + mails_received L [e]"
    using turns_objects [OF c(2)] assms(5) by (simp add: accounted_def)
  show ?thesis
  proof (cases "destroyed c'")
    case True
    have "mails_received L [e] = 0"
      using c(2) True alive_simps(1) [OF c(1)]
      by (cases rule: turns.cases) (auto simp: mails_received_event mail_accepted_def)
    with ended_datagrams [OF c True] n assms(5,6) True show ?thesis
      by (simp add: accounted_def)
  next
    case False
    have "alive L c'"
      using turns_inv [OF assms(1) c assms(3)] False by (auto simp: dead_def)
    then have "datagrams c' = []" "length (auto_close_list c') \<le> 1"
      by (auto simp: alive_def waiting_def has_mail_def split: conn_state.splits)
    with False n show ?thesis
      by (simp add: accounted_def)
  qed
qed

section \<open>In the server\<close>

definition all_accounted :: "libs \<Rightarrow> bool \<Rightarrow> server_event list \<Rightarrow> server \<Rightarrow> bool" where
  "all_accounted L b es s \<longleftrightarrow>
     (\<forall>k c. conns s k = Some c \<longrightarrow> accounted b (mails_received L (events_of k es)) c)"

lemma accounted_attach [simp]: "accounted b n (attach s c) = accounted b n c"
  by (simp add: accounted_def)

lemma all_accounted_step:
  assumes "libs_ok L" and "server_trace L es s" and "all_accounted L (log_defined E) es s"
    and "server_enabled E s e" and "server_step L E e s = Inr s'"
  shows "all_accounted L (log_defined E) (es @ [e]) s'"
proof (cases e)
  case (Accept l i now p)
  with assms(4) have new: "conns s i = None" by simp
  then have "events_of i es = []"
    using server_trace_inv [OF assms(1,2)] by (simp add: server_inv_def)
  moreover have "conns s' = (conns s)(i \<mapsto> connection_new L l now p (srv_heap s) (srv_actions s))"
    using assms(5) Accept by (auto simp: server_accept_def)
  ultimately show ?thesis
    using assms(3) Accept by (auto simp: all_accounted_def accounted_def connection_new_def)
next
  case (Conn i x)
  with assms(4,5) obtain c c' where c: "conns s i = Some c" "conn_enabled E (attach s c) x"
      "conn_step L E x (attach s c) = Inr c'" "conns s' = (conns s)(i \<mapsto> c')"
    by (auto simp: server_conn_def and_then_Inr split: option.splits)
  have "accounted (log_defined E) (mails_received L (events_of i es)) (attach s c)"
    using assms(3) c(1) by (simp add: all_accounted_def)
  from accounted_step [OF assms(1) server_invD(1) [OF server_trace_inv [OF assms(1,2)] c(1)] c(2,3) this]
  have "accounted (log_defined E) (mails_received L (events_of i es @ [x])) c'"
    by simp
  with assms(3) c(4) Conn show ?thesis
    by (simp add: all_accounted_def)
qed

lemma all_accounted_run:
  assumes "libs_ok L" and "server_trace L es s" and "all_accounted L b es s"
    and "run_server L xs s = Some s'" and "list_all (\<lambda>E. log_defined E = b) (map fst xs)"
  shows "all_accounted L b (es @ map snd xs) s'"
  using assms(2-)
proof (induction xs arbitrary: es s)
  case (Cons x xs)
  obtain E e where x: "x = (E, e)"
    by (cases x)
  with Cons.prems(3) obtain s1 where s1: "server_enabled E s e" "server_step L E e s = Inr s1"
      "run_server L xs s1 = Some s'"
    by (auto split: if_splits sum.splits)
  have b: "log_defined E = b" "list_all (\<lambda>E. log_defined E = b) (map fst xs)"
    using Cons.prems(4) x by simp_all
  have "all_accounted L b (es @ [e]) s1"
    using all_accounted_step [OF assms(1) Cons.prems(1) _ s1(1,2)] Cons.prems(2) b(1) by simp
  from Cons.IH [OF server_trace.step [OF Cons.prems(1) s1(1,2)] this s1(3) b(2)] x show ?case
    by simp
qed simp

text \<open>The connections that are left at the end of the server are deleted as if their clients had
  gone.\<close>

lemma dispose_run:
  "dispose_connections L D ks s = Inr s' \<Longrightarrow>
    \<exists>js. run_server L (map (\<lambda>j. (D, Conn j EvDisconnect)) js) s = Some s'"
proof (induction ks arbitrary: s)
  case Nil
  then have "run_server L (map (\<lambda>j. (D, Conn j EvDisconnect)) []) s = Some s'"
    by simp
  then show ?case by blast
next
  case (Cons k ks)
  then obtain s1 where s1: "dispose_connection L D k s = Inr s1" "dispose_connections L D ks s1 = Inr s'"
    by (auto simp: and_then_Inr)
  from Cons.IH [OF s1(2)] obtain js where js: "run_server L (map (\<lambda>j. (D, Conn j EvDisconnect)) js) s1 = Some s'"
    by blast
  have "s1 = s \<or> server_enabled D s (Conn k EvDisconnect) \<and> server_step L D (Conn k EvDisconnect) s = Inr s1"
    using s1(1) by (auto simp: dispose_connection_def server_conn_def OnDisconnect_def split: option.splits if_splits)
  with js have "run_server L (map (\<lambda>j. (D, Conn j EvDisconnect)) js) s = Some s' \<or>
      run_server L (map (\<lambda>j. (D, Conn j EvDisconnect)) (k # js)) s = Some s'"
    by auto
  then show ?case by blast
qed

lemma events_of_append [simp]: "events_of i (es @ es') = events_of i es @ events_of i es'"
  by (simp add: events_of_def)

lemma mails_received_append: "mails_received L (es @ es') = mails_received L es + mails_received L es'"
  by (simp add: mails_received_def requests_def)

lemma no_mails: "mails_received L (events_of i (map (\<lambda>j. Conn j EvDisconnect) js)) = 0"
  by (induction js) (auto simp: mails_received_def requests_def events_of_def)

section \<open>Properties\<close>

text \<open>C23: Every mail is accounted for, from the configuration to the log server. In a server that
  \<open>main()\<close> has started, with any clients and scripts: a connection that still exists has sent
  no log datagram; one that has ended has sent one for the mail it has received, if there was
  one and the configuration has set \<open>log_server\<close>, and none otherwise. When the server ends, it
  deletes the connections that are left, and then there is a datagram for each mail that has
  ever been received.\<close>

theorem server_logs:
  assumes "libs_ok L" and "log_server_law S" and "main B L S sys argv dir fds = Inr i"
    and "run_server L xs (server_new (listeners i)) = Some s" and "logs_for i (D # map fst xs)"
    and "conns s k = Some c" and "set ks = {k. conns s k \<noteq> None}"
    and "n = (if globals i ''log_server'' = None then 0 else mails_received L (events_of k (map snd xs)))"
  shows "n \<le> 1 \<and> length (datagrams c) = (if destroyed c then n else 0) \<and>
    (\<exists>s' c'. dispose_connections L D ks s = Inr s' \<and> conns s' k = Some c' \<and> destroyed c' \<and>
      length (datagrams c') = n)"
proof -
  define b where "b = (GetLogSocket i \<noteq> None)"
  let ?n = "mails_received L (events_of k (map snd xs))"
  have b: "list_all (\<lambda>E. log_defined E = b) (map fst xs)" "log_defined D = b" "n = (if b then ?n else 0)"
    using assms(5) log_socket_config(2) [OF assms(2,3)] by (simp_all add: logs_for_def b_def assms(8))
  note trace = run_server_trace [OF assms(4)]
  have "all_accounted L b [] (server_new (listeners i))"
    by (simp add: all_accounted_def server_new_def)
  from all_accounted_run [OF assms(1) server_new_trace this assms(4) b(1)]
  have now: "all_accounted L b (map snd xs) s"
    by simp
  then have c: "accounted b ?n c"
    using assms(6) by (simp add: all_accounted_def)
  obtain s' c' where s': "dispose_connections L D ks s = Inr s'" "conns s' k = Some c'" "destroyed c'"
    using dispose_connections_all [OF assms(1) trace, of ks D] assms(6,7) unfolding disposed_def by blast
  obtain js where "run_server L (map (\<lambda>j. (D, Conn j EvDisconnect)) js) s = Some s'"
    using dispose_run [OF s'(1)] by blast
  from all_accounted_run [OF assms(1) trace now this] b(2) s'(2)
  have "accounted b ?n c'"
    by (simp add: all_accounted_def list_all_iff comp_def mails_received_append no_mails)
  with c s' b(3) show ?thesis
    by (auto simp: accounted_def)
qed

text \<open>A configuration that names a log server, and a client whose mail is discarded.\<close>

definition logging_os :: os_env where
  "logging_os = ref_os ''/etc/qrelay.lua''
     [Assign ''log_server'' (LString ''pond''), CallListen [LString ''/run/qrelay'', LFunction ''handler'']]"

definition logged_events :: "(conn_env \<times> server_event) list" where
  "logged_events = map (Pair sample_env) (Accept sample_listener 0 0 sample_peer # map (Conn 0)
     [EvRequest (Some sample_payload), EvLua (CallMethod ''discard'' [LMail 0]),
      EvLuaFinished (LAction (NewLuaAction\<lparr>type := DISCARD\<rparr>))])"

lemma logged_seen:
  "map_option (\<lambda>s. map_option destroyed (conns s 0)) (run_server ref_libs logged_events (server_new [sample_listener])) =
    Some (Some True)"
  by code_simp

lemma run_conns:
  "run_server L xs s = Some s' \<Longrightarrow> conns s' k \<noteq> None \<Longrightarrow>
    conns s k \<noteq> None \<or> (\<exists>E l t p. (E, Accept l k t p) \<in> set xs)"
proof (induction L xs s rule: run_server.induct)
  case (2 L E e es s)
  then obtain s1 where s1: "server_enabled E s e" "server_step L E e s = Inr s1" "run_server L es s1 = Some s'"
    by (auto split: if_splits sum.splits)
  from "2.IH" [OF s1(1,2,3) "2.prems"(2)] show ?case
  proof
    assume "conns s1 k \<noteq> None"
    with s1(1,2) have "conns s k \<noteq> None \<or> (\<exists>l t p. e = Accept l k t p)"
      by (cases e) (auto simp: server_accept_def server_conn_def and_then_Inr split: if_splits option.splits)
    then show ?thesis
      by (metis list.set_intros(1))
  qed auto
qed simp

lemma logged_mails: "mails_received ref_libs (events_of 0 (map snd logged_events)) = 1"
  by code_simp

theorem server_logs_witness:
  "\<exists>i s c. main ref_build ref_libs ref_startup logging_os [''qrelay'', ''--config'', ''/etc/qrelay.lua''] ''/root'' 0 = Inr i \<and>
    run_server ref_libs logged_events (server_new (listeners i)) = Some s \<and>
    conns s 0 = Some c \<and> length (datagrams c) = 1"
proof -
  have laws: "log_server_law ref_startup"
      "lua_tointeger ref_libs (Finite (of_int DEFAULT_MAX_SIZE)) = DEFAULT_MAX_SIZE"
    by (rule plain_laws)+
  obtain i where i: "main ref_build ref_libs ref_startup logging_os [''qrelay'', ''--config'', ''/etc/qrelay.lua''] ''/root'' 0 = Inr i"
      "listeners i = [sample_listener]" "log_socket i \<noteq> None"
    using logging_start [OF laws(2), of "''qrelay.lua''" "''/etc''" logging_os "''pond''" "''/run/qrelay''"
        "''handler''" 5 ref_startup _ ref_build "''qrelay''" "''/root''" 0]
    by (auto simp: logging_os_def ref_os_def sample_listener_def ref_libs_def)
  obtain s c where s: "run_server ref_libs logged_events (server_new (listeners i)) = Some s"
      "conns s 0 = Some c" "destroyed c"
    using logged_seen unfolding i(2) map_option_eq_Some by blast
  have env: "logs_for i (sample_env # map fst logged_events)"
    using i(3) by (simp add: logs_for_def logged_events_def GetLogSocket_def sample_env_def)
  have ks: "set [0] = {k. conns s k \<noteq> None}"
    using run_conns [OF s(1)] s(2) by (auto simp: server_new_def logged_events_def)
  from server_logs [OF ref_libs_ok laws(1) i(1) s(1) env s(2) ks refl]
  have "length (datagrams c) = (if globals i ''log_server'' = None then 0 else 1)"
    unfolding logged_mails using s(3) by simp
  moreover have "globals i ''log_server'' \<noteq> None"
    using log_socket_config(2) [OF laws(1) i(1)] i(3) by (simp add: GetLogSocket_def)
  ultimately show ?thesis
    using i(1) s(1,2) by auto
qed

end
