(* ===== verification/Completion.thy ===== *)
theory Completion
  imports ConnectionProps
begin

text \<open>
  No relay swallows its result. When what a relay waits for has happened, in whatever order,
  it has called its handler: the response or the failure of the next server; the response of
  a QMQP child and its exit; the end of the output of a raw child and its exit. So the
  connection is over by then.
\<close>

section \<open>What a relay waits for\<close>

text \<open>The read event that ends the output: the end of the file or a hang-up.\<close>

definition ends_pipe :: "pipe_events \<Rightarrow> read_result \<Rightarrow> bool" where
  "ends_pipe ev rd \<longleftrightarrow> hangup ev \<or> rd = ReadBytes []"

fun remote_done :: "remote_event \<Rightarrow> bool" where
  "remote_done ConnectSuccess = False"
| "remote_done _ = True"

definition exec_done :: "exec_event set \<Rightarrow> bool" where
  "exec_done R \<longleftrightarrow> ExecClientError \<in> R \<or>
     (\<exists>st. ChildExit st \<in> R \<and> (\<not> child_succeeded st \<or> (\<exists>p. ExecResponse p \<in> R)))"

definition raw_done :: "raw_event set \<Rightarrow> bool" where
  "raw_done R \<longleftrightarrow> RequestReady WriteError \<in> R \<or> (\<exists>ev. ResponseReady ev ReadError \<in> R \<and> \<not> hangup ev) \<or>
     (\<exists>st ev rd. RawChildExit st \<in> R \<and> ResponseReady ev rd \<in> R \<and> ends_pipe ev rd)"

definition relay_done :: "relay_event set \<Rightarrow> bool" where
  "relay_done R \<longleftrightarrow> (\<exists>e. RemoteEvent e \<in> R \<and> remote_done e) \<or>
     exec_done {e. ExecEvent e \<in> R} \<or> raw_done {e. RawEvent e \<in> R}"

text \<open>The client of a child reports a response as an array; a null array, which is also how
  \<open>ExecRelay\<close> marks that there is none, is not a response.\<close>

definition real_responses :: "exec_event set \<Rightarrow> bool" where
  "real_responses R \<longleftrightarrow> ExecResponse None \<notin> R"

section \<open>A relay that still runs\<close>

text \<open>What has not happened yet when a relay has gone through some events and runs.\<close>

lemma run_Cons_Running:
  "run_relay f (e # es) r = Running u r' \<longleftrightarrow>
    (\<exists>r1. f e r = Running () r1 \<and> run_relay f es r1 = Running u r')"
  by (cases "f e r") auto

lemma remote_running:
  "run_relay remote_step es r = Running u r' \<Longrightarrow> e \<in> set es \<Longrightarrow> \<not> remote_done e"
proof (induction es arbitrary: r)
  case (Cons x xs)
  then obtain r1 where "remote_step x r = Running () r1" "run_relay remote_step xs r1 = Running u r'"
    unfolding run_Cons_Running by blast
  with Cons show ?case
    by (cases x) (auto simp: OnSocketConnectError_def)
qed simp

lemma exec_running:
  assumes "run_relay exec_step es r = Running u r'" and "real_responses (set es)"
  shows "ExecClientError \<notin> set es \<and> (\<forall>st. ChildExit st \<in> set es \<longrightarrow> child_succeeded st) \<and>
    ((\<exists>st. ChildExit st \<in> set es) \<or> \<not> pidfd r \<longrightarrow>
      (\<forall>p. ExecResponse p \<notin> set es) \<and> (pidfd r \<longrightarrow> deferred_response r = None))"
  using assms
proof (induction es arbitrary: r)
  case (Cons x xs)
  have xs: "real_responses (set xs)"
    using Cons.prems(2) by (simp add: real_responses_def)
  obtain r1 where r1: "exec_step x r = Running () r1" "run_relay exec_step xs r1 = Running u r'"
    using Cons.prems(1) unfolding run_Cons_Running by blast
  show ?case
  proof (cases x)
    case (ChildExit st)
    with r1(1) have "child_succeeded st" "deferred_response r = None" "r1 = r\<lparr>pidfd := False\<rparr>"
      by (auto simp: ExecRelay_OnChildProcessExit_def Let_def child_succeeded_def split: if_splits)
    with ChildExit Cons.IH [OF r1(2) xs] show ?thesis
      by auto
  next
    case (ExecResponse p)
    then obtain s where p: "p = Some s"
      using Cons.prems(2) by (cases p) (auto simp: real_responses_def)
    with ExecResponse r1(1) have "pidfd r" "r1 = r\<lparr>deferred_response := Some s\<rparr>"
      by (auto simp: ExecRelay_OnNetstringResponse_def split: if_splits)
    with ExecResponse Cons.IH [OF r1(2) xs] show ?thesis
      by auto
  next
    case ExecClientError
    with r1(1) show ?thesis
      by simp
  qed
qed simp

lemma Finish_not_Running [simp]: "RawExecRelay_Finish r \<noteq> Running u r'"
  by (simp add: RawExecRelay_Finish_def Let_def split: option.split)

lemma TryRead_Running:
  "TryRead rd r = Running got r' \<Longrightarrow> rd \<noteq> ReadError \<and> got = (rd \<noteq> ReadBytes []) \<and>
    raw_pidfd r' = raw_pidfd r \<and> response_pipe r' = response_pipe r"
  by (cases rd) (auto simp: TryRead_def ReadPipeOrThrow_def Let_def split: if_splits)

lemma OnResponsePipeReady_Running:
  assumes "OnResponsePipeReady ev rd r = Running u r'"
  shows "(rd = ReadError \<longrightarrow> hangup ev) \<and> raw_pidfd r' = raw_pidfd r \<and>
    (if ends_pipe ev rd then raw_pidfd r \<and> \<not> response_pipe r' else response_pipe r' = response_pipe r)"
  using assms TryRead_Running
  by (fastforce simp: OnResponsePipeReady_eq close_response_pipe_def ends_pipe_def Let_def
      TryRead_error split: if_splits outcome.splits)

lemma raw_running:
  assumes "run_relay raw_step es r = Running u r'"
  shows "RequestReady WriteError \<notin> set es \<and>
    (\<forall>ev. ResponseReady ev ReadError \<in> set es \<longrightarrow> hangup ev) \<and>
    ((\<exists>st. RawChildExit st \<in> set es) \<or> \<not> raw_pidfd r \<longrightarrow>
      (\<forall>ev rd. ResponseReady ev rd \<in> set es \<longrightarrow> \<not> ends_pipe ev rd) \<and> (raw_pidfd r \<longrightarrow> response_pipe r))"
  using assms
proof (induction es arbitrary: r)
  case (Cons x xs)
  obtain r1 where r1: "raw_step x r = Running () r1" "run_relay raw_step xs r1 = Running u r'"
    using Cons.prems unfolding run_Cons_Running by blast
  note IH = Cons.IH [OF r1(2)]
  show ?case
  proof (cases x)
    case (RequestReady w)
    with r1(1) have "w \<noteq> WriteError" "raw_pidfd r1 = raw_pidfd r" "response_pipe r1 = response_pipe r"
      by (auto simp: OnRequestPipeReady_def TryWrite_def Let_def split: write_result.splits)
    with RequestReady IH show ?thesis
      by auto
  next
    case (ResponseReady ev rd)
    with r1(1) OnResponsePipeReady_Running [of ev rd r "()" r1] IH show ?thesis
      by (auto split: if_splits)
  next
    case (RawChildExit st)
    with r1(1) have "response_pipe r" "r1 = r\<lparr>raw_pidfd := False, status := Some st\<rparr>"
      by (auto simp: RawExecRelay_OnChildProcessExit_def Let_def split: if_splits)
    with RawChildExit IH show ?thesis
      by auto
  qed
qed simp

text \<open>The events of a running relay are those of its class.\<close>

lemma run_embed_Running:
  assumes "\<And>e q. step' (f e) (g q) = map_relay g (step e q)"
    and "\<And>x q. en' (g q) x \<Longrightarrow> \<exists>e. x = f e \<and> en q e"
    and "run_enabled step' en' xs (g q)" and "run_relay step' xs (g q) = Running () r"
  shows "\<exists>es q'. xs = map f es \<and> run_relay step es q = Running () q'"
  using assms(3,4)
proof (induction xs arbitrary: q)
  case (Cons x xs)
  then obtain e where e: "x = f e"
    using assms(2) [of q x] by auto
  obtain r1 where r1: "step' x (g q) = Running () r1" "run_relay step' xs r1 = Running () r"
    using Cons.prems(2) unfolding run_Cons_Running by blast
  then obtain q1 where q1: "step e q = Running () q1" "r1 = g q1"
    using e assms(1) [of e q] by (cases "step e q") auto
  obtain es q' where "xs = map f es" "run_relay step es q1 = Running () q'"
    using Cons.IH [of q1] Cons.prems(1) r1 q1 by auto
  with e q1(1) show ?case
    by (intro exI [of _ "e # es"]) auto
qed simp

lemmas runs_embed =
  run_embed_Running [where step' = relay_step and f = RemoteEvent and g = Remote and step = remote_step and
    en' = relay_enabled and en = remote_enabled, OF relay_step.simps(1) relay_enabled_embed(1)]
  run_embed_Running [where step' = relay_step and f = ExecEvent and g = Exec and step = exec_step and
    en' = relay_enabled and en = exec_enabled, OF relay_step.simps(2) relay_enabled_embed(2)]
  run_embed_Running [where step' = relay_step and f = RawEvent and g = RawExec and step = raw_step and
    en' = relay_enabled and en = raw_enabled, OF relay_step.simps(3) relay_enabled_embed(3)]

lemma relay_not_done:
  assumes "relay_started L E m hs a r0" and "run_enabled relay_step relay_enabled res r0"
    and "run_relay relay_step res r0 = Running () r" and "real_responses {e. ExecEvent e \<in> set res}"
  shows "\<not> relay_done (set res)"
proof (cases r0)
  case (Remote q)
  then obtain es q' where "res = map RemoteEvent es" "run_relay remote_step es q = Running () q'"
    using runs_embed(1) assms(2,3) by blast
  with remote_running [of es q "()" q'] show ?thesis
    by (auto simp: relay_done_def exec_done_def raw_done_def)
next
  case (Exec q)
  then obtain es q' where es: "res = map ExecEvent es" "run_relay exec_step es q = Running () q'"
    using runs_embed(2) assms(2,3) by blast
  have "{e. ExecEvent e \<in> set res} = set es"
    using es(1) by auto
  with exec_running [OF es(2)] assms(4) es(1) show ?thesis
    by (auto simp: relay_done_def exec_done_def raw_done_def)
next
  case (RawExec q)
  then obtain es q' where es: "res = map RawEvent es" "run_relay raw_step es q = Running () q'"
    using runs_embed(3) assms(2,3) by blast
  have "{e. RawEvent e \<in> set res} = set es"
    using es(1) by auto
  with raw_running [OF es(2)] es(1) show ?thesis
    by (auto simp: relay_done_def exec_done_def raw_done_def)
qed

section \<open>Properties\<close>

text \<open>C12: Every relay comes to its verdict. If the events of a connection include the ones its
  relay has to wait for, in whatever order and mixed with others, the connection has ended:
  no response, exit or end of output is lost between the callbacks that wait for each other.
  (Required is that the client of a child has not reported a null array as a response, which
  would be mistaken for one that is still missing.)\<close>

theorem conn_completes:
  assumes "libs_ok L" and "conn_trace L es c"
    and "real_responses {e. EvRelay (ExecEvent e) \<in> set es}" and "relay_done {r. EvRelay r \<in> set es}"
  shows "destroyed c"
proof (rule ccontr)
  assume "\<not> destroyed c"
  then have hist: "history L es c"
    using trace_history [OF assms(1,2)] by simp
  have R: "set (relay_events es) = {r. EvRelay r \<in> set es}"
    by (auto simp: relay_events_set)
  show False
  proof (cases "relay_operation c")
    case None
    with hist R assms(4) show False
      by (simp add: history_def relay_done_def exec_done_def raw_done_def)
  next
    case (Some r)
    with hist obtain E m hs a r0 where "relay_started L E m hs a r0"
        "run_relay relay_step (relay_events es) r0 = Running () r"
        "run_enabled relay_step relay_enabled (relay_events es) r0"
      by (auto simp: history_def relay_from_def)
    with relay_not_done [of L E m hs a r0 "relay_events es" r] assms(3,4) R show False
      by (simp add: relay_events_set)
  qed
qed

text \<open>The child has written its response and then exits.\<close>

definition sample_responded :: connection where
  "sample_responded = sample_relaying\<lparr>relay_operation :=
     Some (Exec (sample_child\<lparr>deferred_response := Some ''Kok''\<rparr>))\<rparr>"

abbreviation sample_responded_events :: "conn_event list" where
  "sample_responded_events \<equiv> [EvRequest (Some sample_payload),
     EvLuaFinished (LAction (sample_action EXEC)), EvRelay (ExecEvent (ExecResponse (Some ''Kok'')))]"

lemma sample_responded_trace: "conn_trace ref_libs sample_responded_events sample_responded"
proof -
  have "conn_step ref_libs sample_env (EvRelay (ExecEvent (ExecResponse (Some ''Kok'')))) sample_relaying =
      Inr sample_responded"
    by (simp add: sample_responded_def sample_relaying_def relaying_def OnRelayEvent_def
        ExecRelay_OnNetstringResponse_def)
  moreover have "conn_enabled sample_env sample_relaying (EvRelay (ExecEvent (ExecResponse (Some ''Kok''))))"
    by (simp add: sample_relaying_def relaying_def CLIENT_MAX_SIZE_def array_bytes_def)
  ultimately show ?thesis
    using conn_trace.step [OF sample_relaying_trace] by fastforce
qed

theorem conn_completes_witness:
  "\<exists>c'. conn_step ref_libs sample_env (EvRelay (ExecEvent (ChildExit (exited 0)))) sample_responded = Inr c' \<and>
    destroyed c'"
proof -
  let ?e = "EvRelay (ExecEvent (ChildExit (exited 0)))"
  have en: "conn_enabled sample_env sample_responded ?e"
    by (simp add: sample_responded_def sample_relaying_def relaying_def)
  have "alive ref_libs sample_responded"
    using trace_alive [OF ref_libs_ok sample_responded_trace enabled_alive [OF en]] .
  then obtain c' where c': "conn_step ref_libs sample_env ?e sample_responded = Inr c'"
    using step_turns [of ref_libs sample_responded sample_env ?e, OF _ en] by (fastforce split: sum.splits)
  from conn_completes [OF ref_libs_ok conn_trace.step [OF sample_responded_trace en c']] c' show ?thesis
    by (auto simp: real_responses_def relay_done_def exec_done_def)
qed

end
