(* ===== verification/Forwarding.thy ===== *)
theory Forwarding
  imports ConnectionProps Delivery
begin

text \<open>
  The way of a mail through the relay and on: from the bytes a client has sent to what the
  relay is given (the payload of the next QMQP request, or the input of a raw child), and,
  if the next server is another relay of this kind, to the mail object that its handler gets.
\<close>

section \<open>The received mail\<close>

text \<open>A handler that sees the mail sees the content of the one request its connection got,
  whatever scripts have done to the object.\<close>

lemma received_content:
  assumes "libs_ok L" and "conn_trace L es c" and "\<not> destroyed c" and "state c \<noteq> INIT"
    and "EvRequest (Some (qmqp_payload msg sndr rcpts)) \<in> set es"
    and "list_all (VerifyEmailAddress L) (sndr # rcpts)"
    and "rcpts \<noteq> []" and "length rcpts \<le> MAX_RECIPIENTS"
    and "mail_ptr c = Some k" and "lua_heap c k = Some m"
  shows "message m = StripLeft L msg \<and> recipients m = rcpts \<and> \<not> IsStale m \<and> mail_ok L m"
proof -
  note laws = libs_okD [OF assms(1)]
  have fits: "list_all fits64 (msg # sndr # rcpts)"
    using requests_fit [OF assms(2,5)] fits64_payload [of msg sndr rcpts] by (simp add: array_bytes_def)
  have parse: "MutableMail_Parse L (new_mutable_mail (Some (qmqp_payload msg sndr rcpts))) =
      (SUCCESS, new_mutable_mail (Some (qmqp_payload msg sndr rcpts))\<lparr>message := msg, sender := sndr,
         tail := '','' @ netstrings rcpts, recipients := rcpts\<rparr>)"
    using parse_qmqp_payload [OF laws(1,2) fits assms(6-8),
        where mail = "new_mutable_mail (Some (qmqp_payload msg sndr rcpts))"]
    by (simp add: MutableMail_Parse_def new_mutable_mail_def array_bytes_def)
  have "mail_ok L m"
    using trace_alive [OF assms(1-3)] assms(10) by (auto simp: alive_def world_ok_def dest: heap_okD)
  with trace_mail_history [OF assms(1-3)] assms(4,9,10) requests_set [OF assms(5)] parse
  show ?thesis
    by (auto simp: mail_history_def same_content_def NewIncomingMail_fields received_mail_def
        NewIncomingMail_def MutableMail.extend_def IsStale_def)
qed

section \<open>What the relay is given\<close>

text \<open>The relay of a connection is created for its mail with the assembled headers.\<close>

lemma relay_created:
  assumes "libs_ok L" and "conn_trace L es c" and "conn_enabled E c (EvLuaFinished (LAction a))"
    and "conn_step L E (EvLuaFinished (LAction a)) c = Inr c'" and "\<not> destroyed c'"
    and "mail_ptr c = Some k" and "lua_heap c k = Some m"
  shows "\<exists>r. relay_operation c' = Some r \<and> relay_started L E m (AssembleHeaders L (conn_peer c) m) a r"
proof -
  have "turns L E (EvLuaFinished (LAction a)) c c'"
    using trace_turns [OF assms(1-4)] by simp
  then show ?thesis
  proof (cases rule: turns.cases)
    case (action k1 m1)
    with assms(6,7) have m1: "m1 = m" by simp
    from action(6) show ?thesis
    proof (cases rule: action_outcome_cases)
      case (answered c1 s)
      with assms(5) show ?thesis by (simp add: answers_def)
    next
      case (relays r)
      with m1 show ?thesis by (simp add: relaying_def)
    qed
  next
    case no_action
    with assms(5) show ?thesis by (simp add: answers_def)
  qed
qed

text \<open>The two relays that talk QMQP send a payload. The raw relay writes an input: what has gone into
  the pipe to the child, followed by what is queued; the pipe is open exactly as long as
  something is.\<close>

definition gives_payload :: "string \<Rightarrow> relay \<Rightarrow> bool" where
  "gives_payload payload r \<longleftrightarrow>
     (case r of
        Remote q \<Rightarrow> wire_payload q = payload
      | Exec q \<Rightarrow> wire_payload q = payload
      | RawExec q \<Rightarrow> False)"

definition writes_input :: "string \<Rightarrow> relay \<Rightarrow> bool" where
  "writes_input input r \<longleftrightarrow>
     (case r of
        RawExec q \<Rightarrow> raw_input q = input \<and> (request_pipe q \<longleftrightarrow> concat (request_buffer q) \<noteq> [])
      | _ \<Rightarrow> False)"

lemma writes_input_unique: "writes_input input r \<Longrightarrow> writes_input input' r \<Longrightarrow> input = input'"
  by (simp add: writes_input_def split: relay.splits)

lemma relay_started_gives:
  assumes "relay_started L E m hs a r" and "type a = EXEC_RAW \<Longrightarrow> write_law (hs @ [message m]) (pipe_write E)"
  shows "if type a = EXEC_RAW then writes_input (concat hs @ message m) r
    else gives_payload (wire_payload (BasicRelay_new L m hs)) r"
proof (cases r)
  case (RawExec q)
  with assms(1) have "type a = EXEC_RAW"
      "RawExecRelay_Start a (os E) (pipe_write E) (RawExecRelay_new m hs) = Running True q"
    by (simp_all add: relay_started_def)
  with Start_input [OF this(2)] assms(2) RawExec show ?thesis
    by (simp add: writes_input_def input_inv_def)
qed (use assms in \<open>auto simp: relay_started_def gives_payload_def wire_payload_Remote wire_payload_Exec\<close>)

lemma relay_started_payload:
  "relay_started L E m hs a r \<Longrightarrow> gives_payload payload r \<Longrightarrow> payload = wire_payload (BasicRelay_new L m hs)"
  by (cases r) (auto simp: gives_payload_def relay_started_def wire_payload_Remote wire_payload_Exec)

text \<open>Whatever the handler does with the object before it asks for a relay: another QMQP server or
  a QMQP child is given a payload that parses again, a raw child the headers and the message.\<close>

lemma mail_forwarded:
  assumes "libs_ok L" and "conn_trace L es c"
    and "EvRequest (Some (qmqp_payload msg sndr rcpts)) \<in> set es"
    and "list_all (VerifyEmailAddress L) (sndr # rcpts)"
    and "rcpts \<noteq> []" and "length rcpts \<le> MAX_RECIPIENTS"
    and "mail_ptr c = Some k" and "lua_heap c k = Some m"
    and "fits64 (concat (AssembleHeaders L (conn_peer c) m) @ message m)" and "fits64 (sender m)"
    and "conn_enabled E c (EvLuaFinished (LAction a))"
    and "conn_step L E (EvLuaFinished (LAction a)) c = Inr c'"
    and "\<not> destroyed c'" and "recipients fresh = []"
    and "type a = EXEC_RAW \<Longrightarrow> write_law (AssembleHeaders L (conn_peer c) m @ [message m]) (pipe_write E)"
  shows "\<exists>r input. relay_operation c' = Some r \<and> list_all header_line (headers m) \<and>
    input = concat (AssembleHeaders L (conn_peer c) m) @ StripLeft L msg \<and>
    (if type a = EXEC_RAW then writes_input input r
     else \<exists>payload mail. gives_payload payload r \<and> Parse L payload fresh = (SUCCESS, mail) \<and>
       message mail = input \<and> recipients mail = rcpts \<and> sender mail = sender m \<and>
       VerifyEmailAddress L (sender mail))"
proof -
  note laws = libs_okD [OF assms(1)]
  have c: "alive L c" "\<not> destroyed c" "state c = LUA"
    using trace_alive [OF assms(1,2) enabled_alive [OF assms(11)]] assms(11) by (auto simp: alive_simps)
  then have m: "message m = StripLeft L msg" "recipients m = rcpts" "mail_ok L m" "envelope_ok L m"
    using received_content [OF assms(1,2) c(2) _ assms(3-8)] by (auto simp: mail_ok_def)
  obtain r where r: "relay_operation c' = Some r" "relay_started L E m (AssembleHeaders L (conn_peer c) m) a r"
    using relay_created [OF assms(1,2,11-13,7,8)] by blast
  have "VerifyEmailAddress L (sender m)" "list_all header_line (headers m)"
    using m(3,4) by (simp_all add: envelope_ok_def mail_ok_def)
  with relayed_payload [OF laws(1,2,5,6) m(4) assms(9,10,14)] relay_started_gives [OF r(2) assms(15)] r(1) m(1,2)
  show ?thesis
    by (auto split: if_splits)
qed

section \<open>The sample\<close>

lemma sample_request_sent:
  "EvRequest (Some (qmqp_payload '' m'' ''a@b'' [''c@d''])) \<in> set [EvRequest (Some sample_payload)]"
proof -
  have "qmqp_payload '' m'' ''a@b'' [''c@d''] = sample_payload"
    by code_simp
  then show ?thesis
    by simp
qed

lemma sample_tail: "tail sample_parsed = '',3:c@d,''"
  by code_simp

lemma sample_addresses: "list_all (VerifyEmailAddress ref_libs) [''a@b'', ''c@d'']"
  by code_simp

section \<open>Properties\<close>

text \<open>C5: Two relays in a row. If what one relay sends is the request of a connection of another, then
  this connection accepts it and starts its handler with a live mail object that has the
  added headers and the received message as its message (up to leading blanks), exactly the
  recipients that the first client has sent, and the sender as the first handler left it.\<close>

theorem two_hops:
  assumes "libs_ok L" and "conn_trace L es c"
    and "EvRequest (Some (qmqp_payload msg sndr rcpts)) \<in> set es"
    and "list_all (VerifyEmailAddress L) (sndr # rcpts)"
    and "rcpts \<noteq> []" and "length rcpts \<le> MAX_RECIPIENTS"
    and "mail_ptr c = Some k" and "lua_heap c k = Some m"
    and "conn_enabled E c (EvLuaFinished (LAction a))"
    and "conn_step L E (EvLuaFinished (LAction a)) c = Inr c'"
    and "\<not> destroyed c'" and "relay_operation c' = Some r" and "gives_payload payload r"
    and "conn_enabled F d (EvRequest (Some payload))"
  shows "\<exists>d' m'. conn_step L F (EvRequest (Some payload)) d = Inr d' \<and>
    \<not> destroyed d' \<and> state d' = LUA \<and> lua_running d' \<and>
    mail_ptr d' = Some (fresh_cell F) \<and> lua_heap d' (fresh_cell F) = Some m' \<and> \<not> IsStale m' \<and>
    message m' = StripLeft L (concat (AssembleHeaders L (conn_peer c) m) @ StripLeft L msg) \<and>
    recipients m' = rcpts \<and> sender m' = sender m"
proof -
  note laws = libs_okD [OF assms(1)]
  let ?hs = "AssembleHeaders L (conn_peer c) m"
  have c: "alive L c" "\<not> destroyed c" "state c = LUA"
    using trace_alive [OF assms(1,2) enabled_alive [OF assms(9)]] assms(9) by (auto simp: alive_simps)
  then have m: "message m = StripLeft L msg" "recipients m = rcpts" "envelope_ok L m"
    using received_content [OF assms(1,2) c(2) _ assms(3-8)] by (auto simp: mail_ok_def)
  have payload: "payload = wire_payload (BasicRelay_new L m ?hs)"
    using relay_created [OF assms(1,2,9-11,7,8)] assms(12,13) by (auto dest: relay_started_payload)
  have "unat (max_size d) < 2 ^ 64"
    using unsigned_less [of "max_size d"] by simp
  with assms(14) have "fits64 payload"
    by (simp add: fits64_def array_bytes_def)
  then have fits: "fits64 (concat ?hs @ message m)" "fits64 (sender m)"
    unfolding payload by (simp_all add: wire_payload_new [OF laws(5,6)] fits64_def netstring_def)
  let ?new = "new_mutable_mail (Some payload)"
  have "MutableMail_Parse L ?new = (SUCCESS, ?new\<lparr>message := concat ?hs @ message m, sender := sender m,
      tail := tail m, recipients := recipients m\<rparr>)"
    using relayed_payload [OF laws(1,2,5,6) m(3) fits, of ?new] payload
    by (simp add: MutableMail_Parse_def new_mutable_mail_def array_bytes_def)
  from OnRequest_success [OF _ this, of d F] assms(14) m(1,2) show ?thesis
    by (simp add: mail_accepted_def NewLuaMail_def NewIncomingMail_fields received_mail_def
        new_mutable_mail_def) (simp add: NewIncomingMail_def MutableMail.extend_def)
qed

theorem two_hops_witness:
  "\<exists>d' m'. conn_step ref_libs sample_env (EvRequest (Some (wire_payload sample_child))) (sample_conn DISCARD) = Inr d' \<and>
    lua_running d' \<and> lua_heap d' 0 = Some m' \<and> recipients m' = [''c@d''] \<and> sender m' = ''a@b'' \<and>
    message m' = StripLeft ref_libs (received_line sample_peer @ ''m'')"
proof -
  let ?m = "NewIncomingMail (received_mail ref_libs sample_parsed) sample_peer"
  have strip: "StripLeft ref_libs '' m'' = ''m''"
    by code_simp
  have hs: "AssembleHeaders ref_libs sample_peer ?m = [received_line sample_peer]"
    and m: "sender ?m = ''a@b''"
    using sample_mail_fields
    by (simp_all add: AssembleHeaders_eq sample_peer_def NewIncomingMail_def received_mail_def
        MutableMail.extend_def)
  have tail: "message ?m = ''m''" "tail ?m = '',3:c@d,''"
    using sample_mail_fields strip sample_tail
    by (simp_all add: NewIncomingMail_def received_mail_def MutableMail.extend_def)
  have "wire_payload sample_child = wire_payload (BasicRelay_new ref_libs ?m [received_line sample_peer])"
    by (simp add: sample_child_def Let_def hs ExecRelay_new_def BasicRelay.extend_def wire_payload_def
        client_Request_def BasicRelay_new_def)
  also have "\<dots> = netstring (received_line sample_peer @ ''m'') @ dec_of_nat 3 @ '':a@b,3:c@d,''"
    using libs_okD(5,6) [OF ref_libs_ok] m tail by (simp add: wire_payload_new)
  finally have "length (wire_payload sample_child) \<le> 100"
    using received_line_length [of sample_peer] length_dec_of_nat [of 3 1]
      length_dec_of_nat [of "Suc (length (received_line sample_peer))" 2]
    by (simp add: netstring_def)
  then have en: "conn_enabled sample_env (sample_conn DISCARD) (EvRequest (Some (wire_payload sample_child)))"
    by (simp add: sample_conn_def connection_new_def sample_listener_def array_bytes_def)
  have "\<exists>d' m'. conn_step ref_libs sample_env (EvRequest (Some (wire_payload sample_child))) (sample_conn DISCARD) =
      Inr d' \<and> \<not> destroyed d' \<and> state d' = LUA \<and> lua_running d' \<and>
      mail_ptr d' = Some (fresh_cell sample_env) \<and> lua_heap d' (fresh_cell sample_env) = Some m' \<and>
      \<not> IsStale m' \<and> message m' = StripLeft ref_libs
        (concat (AssembleHeaders ref_libs (conn_peer (sample_lua EXEC)) ?m) @ StripLeft ref_libs '' m'') \<and>
      recipients m' = [''c@d''] \<and> sender m' = sender ?m"
    by (rule two_hops [OF ref_libs_ok sample_lua_trace [of EXEC] sample_request_sent sample_addresses _ _
          _ _ sample_action_enabled sample_exec_step _ _ _ en, where k = 0 and r = "Exec sample_child"])
      (simp_all add: MAX_RECIPIENTS_def gives_payload_def)
  then show ?thesis
    unfolding sample_lua_fields hs m strip by (auto simp del: conn_step.simps simp: sample_env_def)
qed

end
