(* ===== verification/Integration.thy ===== *)
theory Integration
  imports Serial SizeLimits Forwarding
begin

text \<open>
  The integration test of the repository (\<open>test/test.py\<close>), for any mail. The handler of
  \<open>test/config/config.lua\<close> is a script whose calls depend on what earlier calls have
  returned; it is run against the model, in a server that \<open>main()\<close> has started with this
  configuration and that may be serving other clients. The program it names,
  \<open>test/record.py\<close>, reads its input and records it together with its arguments.
\<close>

section \<open>Scripts\<close>

text \<open>A Lua function as the calls it makes: it returns a value, raises an error, or calls a
  function of the relay and goes on with the returned values. An error of a call ends it.\<close>

datatype lua_script = Return lua_value | Raise | Call lua_call "lua_value list \<Rightarrow> lua_script"

primrec run_script :: "libs \<Rightarrow> lua_script \<Rightarrow> lua_heap \<Rightarrow> lua_call list \<times> lua_value option" where
  "run_script L (Return v) h = ([], Some v)"
| "run_script L Raise h = ([], None)"
| "run_script L (Call call f) h =
     (case lua_exec L call h of
        Inl _ \<Rightarrow> ([call], None)
      | Inr (vs, h') \<Rightarrow> apfst (Cons call) (run_script L (f vs) h'))"

text \<open>The events of the connection whose coroutine runs it.\<close>

definition script_events :: "libs \<Rightarrow> lua_script \<Rightarrow> lua_heap \<Rightarrow> conn_event list" where
  "script_events L script h =
     (case run_script L script h of
        (calls, Some v) \<Rightarrow> map EvLua calls @ [EvLuaFinished v]
      | (calls, None) \<Rightarrow> map EvLua calls @ [EvLuaError])"

text \<open>The value of an attribute, \<open>nil\<close> if the function has pushed none; calling a value; the
  elements of an array.\<close>

definition index :: "lua_value \<Rightarrow> string \<Rightarrow> (lua_value \<Rightarrow> lua_script) \<Rightarrow> lua_script" where
  "index m name f = Call (GetAttribute None [m, LString name]) (\<lambda>vs. f (case vs of [] \<Rightarrow> LNil | v # _ \<Rightarrow> v))"

definition call_value :: "lua_value \<Rightarrow> lua_value list \<Rightarrow> (lua_value list \<Rightarrow> lua_script) \<Rightarrow> lua_script" where
  "call_value g args f = (case g of LFunction name \<Rightarrow> Call (CallMethod name args) f | _ \<Rightarrow> Raise)"

definition unpack :: "lua_value \<Rightarrow> lua_value list" where
  "unpack v =
     (case v of
        LTable t \<Rightarrow> List.map_filter (\<lambda>i. map_of t (LNumber (Finite (of_nat i)))) [1..<Suc (length t)]
      | _ \<Rightarrow> [])"

text \<open>The function \<open>handle\<close> of \<open>test/config/config.lua\<close>; \<open>prog\<close> and \<open>dest\<close> are the values of the
  environment variables \<open>QRELAY_RECORD_PROGRAM\<close> and \<open>QRELAY_RECORD_FILE\<close>.\<close>

definition handle :: "string \<Rightarrow> string \<Rightarrow> lua_value \<Rightarrow> lua_script" where
  "handle prog dest m =
     index m ''insert_header'' (\<lambda>g. call_value g [m, LString ''X-Header1'', LString ''Foo''] (\<lambda>_.
     index m ''insert_header'' (\<lambda>g. call_value g [m, LString ''X-Header2'', LString ''Bar''] (\<lambda>_.
     index m ''exec_raw'' (\<lambda>g.
     index m ''sender'' (\<lambda>sndr.
     index m ''recipients'' (\<lambda>rcpts.
     call_value g ([m, LString prog, LString dest, sndr] @ unpack rcpts) (\<lambda>vs.
     Return (case vs of [] \<Rightarrow> LNil | v # _ \<Rightarrow> v)))))))))"

text \<open>What it does with a live mail: it inserts two headers and creates an action.\<close>

lemma unpack_PushArray: "unpack (PushArray ss) = map LString ss"
proof -
  let ?t = "map (\<lambda>(i, s). (LNumber (Finite (of_nat i)), LString s)) (zip [1..<Suc (length ss)] ss)"
  have "map_of ?t (LNumber (Finite (of_nat i))) = Some (LString (ss ! (i - 1)))"
    if "i \<in> set [1..<Suc (length ss)]" for i
  proof (rule map_of_is_SomeI)
    have "map fst ?t = map (\<lambda>i. LNumber (Finite (of_nat i))) [1..<Suc (length ss)]"
      by (rule nth_equalityI) (simp_all add: case_prod_unfold del: upt_Suc)
    then show "distinct (map fst ?t)"
      by (simp add: distinct_map inj_on_def del: upt_Suc)
    show "(LNumber (Finite (of_nat i)), LString (ss ! (i - 1))) \<in> set ?t"
      using that by (auto simp: set_zip intro!: rev_image_eqI exI [of _ "i - 1"] simp del: upt_Suc)
  qed
  then have "List.map_filter (\<lambda>i. map_of ?t (LNumber (Finite (of_nat i)))) [1..<Suc (length ss)] =
      map (\<lambda>i. LString (ss ! (i - 1))) [1..<Suc (length ss)]"
    by (auto simp: List.map_filter_def intro!: map_cong simp del: upt_Suc)
  also have "\<dots> = map LString ss"
    by (rule nth_equalityI) (simp_all del: upt_Suc)
  finally show ?thesis
    by (simp add: unpack_def PushArray_def del: upt_Suc)
qed

lemma collect_strings:
  "length (exec a) + length is \<le> MAX_EXEC \<Longrightarrow> (\<And>i. i \<in> set is \<Longrightarrow> arg args i = LString (f i)) \<Longrightarrow>
    collect_args L args is a = Inr (a\<lparr>exec := exec a @ map f is\<rparr>)"
  by (induction L args "is" a rule: collect_args.induct)
    (simp_all add: CheckStringView_def and_then_def)

lemma NewExecRawAction_strings:
  assumes "ss \<noteq> []" and "length ss \<le> MAX_EXEC"
  shows "NewExecRawAction L (m # map LString ss) h =
    Inr ([LAction (NewLuaAction\<lparr>type := EXEC_RAW, exec := ss\<rparr>)], h)"
proof -
  let ?args = "m # map LString ss"
  have arg: "arg ?args i = LString (ss ! (i - 2))" if "i \<in> set [2..<Suc (Suc (length ss))]" for i
    using that by (auto simp: arg_def nth_Cons' numeral_2_eq_2 simp del: upt_Suc)
  have "map (\<lambda>i. ss ! (i - 2)) [2..<Suc (Suc (length ss))] = ss"
    by (rule nth_equalityI) (simp_all del: upt_Suc)
  then have "collect_args L ?args [2..<Suc (Suc (length ss))] (NewLuaAction\<lparr>type := EXEC_RAW\<rparr>) =
      Inr (NewLuaAction\<lparr>type := EXEC_RAW, exec := ss\<rparr>)"
    using collect_strings [of "NewLuaAction\<lparr>type := EXEC_RAW\<rparr>" "[2..<Suc (Suc (length ss))]" ?args, OF _ arg] assms(2)
    by (simp add: NewLuaAction_def new_action_def del: upt_Suc)
  moreover have "arg ?args (length ?args) = LString (last ss)"
    using assms(1) arg [of "Suc (length ss)"] by (simp add: last_conv_nth Suc_le_eq del: upt_Suc)
  ultimately show ?thesis
    using assms(1) by (simp add: NewExecRawAction_def CollectExec_def and_then_def Suc_le_eq del: upt_Suc)
qed

text \<open>The calls that \<open>handle\<close> makes for a mail, the action it returns, and the mail afterwards.\<close>

definition handle_calls :: "string \<Rightarrow> string \<Rightarrow> nat \<Rightarrow> string \<Rightarrow> string list \<Rightarrow> lua_call list" where
  "handle_calls prog dest j sndr rcpts =
     [GetAttribute None [LMail j, LString ''insert_header''],
      CallMethod ''insert_header'' [LMail j, LString ''X-Header1'', LString ''Foo''],
      GetAttribute None [LMail j, LString ''insert_header''],
      CallMethod ''insert_header'' [LMail j, LString ''X-Header2'', LString ''Bar''],
      GetAttribute None [LMail j, LString ''exec_raw''],
      GetAttribute None [LMail j, LString ''sender''],
      GetAttribute None [LMail j, LString ''recipients''],
      CallMethod ''exec_raw'' (LMail j # map LString ([prog, dest, sndr] @ rcpts))]"

definition record_action :: "string \<Rightarrow> string \<Rightarrow> string \<Rightarrow> string list \<Rightarrow> Action" where
  "record_action prog dest sndr rcpts =
     \<lparr>type = EXEC_RAW, connect = [], exec = [prog, dest, sndr] @ rcpts, env = [], timeout = -1\<rparr>"

definition add_header :: "string \<Rightarrow> IncomingMail \<Rightarrow> IncomingMail" where
  "add_header l m = m\<lparr>n_headers := n_headers m + 1, headers := l # headers m\<rparr>"

definition test_headers :: "IncomingMail \<Rightarrow> IncomingMail" where
  "test_headers m = add_header (''X-Header2: Bar'' @ CRLF) (add_header (''X-Header1: Foo'' @ CRLF) m)"

lemma add_header_sel [simp]:
  "sender (add_header l m) = sender m" "recipients (add_header l m) = recipients m"
  "fenv (add_header l m) = fenv m" "n_headers (add_header l m) = n_headers m + 1"
  "headers (add_header l m) = l # headers m" "IsStale (add_header l m) = IsStale m"
  "message (add_header l m) = message m" "buffer (add_header l m) = buffer m"
  by (simp_all add: add_header_def IsStale_def)

lemma Index_live:
  assumes "h j = Some m" and "\<not> IsStale m"
  shows "n \<in> set mail_methods \<Longrightarrow> Index L None [LMail j, LString n] h = Inr ([LFunction n], h)"
    and "fenv m ''sender'' = None \<Longrightarrow> Index L None [LMail j, LString ''sender''] h = Inr ([LString (sender m)], h)"
    and "fenv m ''recipients'' = None \<Longrightarrow>
      Index L None [LMail j, LString ''recipients''] h = Inr ([PushArray (recipients m)], h)"
  using assms
  by (auto simp: Index_def CastLuaMail_def CheckStale_def CheckStringView_def arg_def mail_methods_def
      c_str_def and_then_def)

lemma insert_test_header:
  assumes "check_chars_law L" and "fmt_law L" and "h j = Some m" and "\<not> IsStale m" and "n_headers m < 16"
  shows "call_method L ''insert_header'' [LMail j, LString ''X-Header1'', LString ''Foo''] h =
      Inr ([], h(j \<mapsto> add_header (''X-Header1: Foo'' @ CRLF) m))"
    and "call_method L ''insert_header'' [LMail j, LString ''X-Header2'', LString ''Bar''] h =
      Inr ([], h(j \<mapsto> add_header (''X-Header2: Bar'' @ CRLF) m))"
proof -
  have "list_all IsValidHeaderNameChar ''X-Header1''" "list_all IsValidHeaderNameChar ''X-Header2''"
      "list_all IsValidHeaderValueChar ''Foo''" "list_all IsValidHeaderValueChar ''Bar''"
    by code_simp+
  with InsertHeader_spec [of L h j m, OF assms(1-4)] assms(5) show
    "call_method L ''insert_header'' [LMail j, LString ''X-Header1'', LString ''Foo''] h =
      Inr ([], h(j \<mapsto> add_header (''X-Header1: Foo'' @ CRLF) m))"
    "call_method L ''insert_header'' [LMail j, LString ''X-Header2'', LString ''Bar''] h =
      Inr ([], h(j \<mapsto> add_header (''X-Header2: Bar'' @ CRLF) m))"
    by (simp_all add: call_method_def add_header_def)
qed

lemma call_exec_raw:
  assumes "length ss \<le> MAX_EXEC" and "ss \<noteq> []"
  shows "call_method L ''exec_raw'' (m # map LString ss) h =
    Inr ([LAction (NewLuaAction\<lparr>type := EXEC_RAW, exec := ss\<rparr>)], h)"
  using NewExecRawAction_strings [OF assms(2,1)] by (simp add: call_method_def)

lemma handle_run:
  assumes "check_chars_law L" and "fmt_law L" and "h j = Some m" and "\<not> IsStale m"
    and "n_headers m = 0" and "fenv m = Map.empty" and "length (recipients m) \<le> 29"
  shows "run_script L (handle prog dest (LMail j)) h =
      (handle_calls prog dest j (sender m) (recipients m),
       Some (LAction (record_action prog dest (sender m) (recipients m))))"
    and "lua_run L (handle_calls prog dest j (sender m) (recipients m)) h = h(j \<mapsto> test_headers m)"
    and "lua_exec L (last (handle_calls prog dest j (sender m) (recipients m))) h' =
      Inr ([LAction (record_action prog dest (sender m) (recipients m))], h')"
proof -
  let ?ss = "[prog, dest, sender m] @ recipients m"
  let ?h1 = "h(j \<mapsto> add_header (''X-Header1: Foo'' @ CRLF) m)" and ?h2 = "h(j \<mapsto> test_headers m)"
  have methods: "''insert_header'' \<in> set mail_methods" "''exec_raw'' \<in> set mail_methods"
    by (simp_all add: mail_methods_def)
  have exec: "call_method L ''exec_raw'' (LMail j # map LString ?ss) h' =
      Inr ([LAction (record_action prog dest (sender m) (recipients m))], h')" for h'
    using assms(7) call_exec_raw [of ?ss L "LMail j" h']
    by (simp add: MAX_EXEC_def record_action_def NewLuaAction_def new_action_def)
  note insert = insert_test_header(1) [of L h j m, OF assms(1-4)]
    insert_test_header(2) [of L ?h1 j "add_header (''X-Header1: Foo'' @ CRLF) m", OF assms(1,2)]
  have live: "?h1 j = Some (add_header (''X-Header1: Foo'' @ CRLF) m)" "?h2 j = Some (test_headers m)"
      "\<not> IsStale (test_headers m)" "fenv (test_headers m) = Map.empty"
    using assms by (simp_all add: test_headers_def)
  note Index = Index_live(1) [of h j m, OF assms(3,4) methods(1)]
    Index_live(1) [of ?h1 j, OF live(1) _ methods(1)] Index_live(1) [of ?h2 j, OF live(2,3) methods(2)]
    Index_live(2,3) [of ?h2 j, OF live(2,3)]
  have two: "?h1(j \<mapsto> add_header (''X-Header2: Bar'' @ CRLF) (add_header (''X-Header1: Foo'' @ CRLF) m)) = ?h2"
    by (simp add: test_headers_def)
  show "run_script L (handle prog dest (LMail j)) h =
      (handle_calls prog dest j (sender m) (recipients m),
       Some (LAction (record_action prog dest (sender m) (recipients m))))"
    using assms Index insert two exec live
    by (simp add: handle_def index_def call_value_def handle_calls_def unpack_PushArray test_headers_def
        del: fun_upd_apply)
  show "lua_run L (handle_calls prog dest j (sender m) (recipients m)) h = ?h2"
    using assms Index insert two exec live
    by (simp add: handle_calls_def heap_after_def del: fun_upd_apply)
  show "lua_exec L (last (handle_calls prog dest j (sender m) (recipients m))) h' =
      Inr ([LAction (record_action prog dest (sender m) (recipients m))], h')"
    using exec by (simp add: handle_calls_def)
qed

section \<open>The input of the child\<close>

text \<open>The answers to the writes to the pipe, when it takes the input in as many steps as it needs.\<close>

fun feeds :: "string list \<Rightarrow> write_result list \<Rightarrow> bool" where
  "feeds bufs [] \<longleftrightarrow> False"
| "feeds bufs (w # ws) \<longleftrightarrow> write_law bufs w \<and>
     (case w of WriteMore rest \<Rightarrow> feeds rest ws | WriteFinished \<Rightarrow> ws = [] | WriteError \<Rightarrow> False)"

text \<open>The relay when these answers are still to come; and what the writes leave alone.\<close>

definition awaits :: "write_result list \<Rightarrow> RawExecRelay \<Rightarrow> bool" where
  "awaits ws q \<longleftrightarrow>
     (if ws = [] then \<not> request_pipe q \<and> concat (request_buffer q) = []
      else request_pipe q \<and> feeds (request_buffer q) ws)"

definition same_child :: "RawExecRelay \<Rightarrow> RawExecRelay \<Rightarrow> bool" where
  "same_child q q' \<longleftrightarrow> raw_input q' = raw_input q \<and> raw_spawned q' = raw_spawned q \<and>
     pipe_fds q' = pipe_fds q \<and> raw_pidfd q' = raw_pidfd q \<and> response_pipe q' = response_pipe q \<and>
     response_buffer q' = response_buffer q \<and> response_fill q' = response_fill q \<and> status q' = status q"

lemma awaits_done: "awaits [] q \<Longrightarrow> input_written q = raw_input q"
  by (simp add: awaits_def raw_input_def del: concat_eq_Nil_conv)

lemma TryWrite_awaits:
  assumes "request_pipe q" and "feeds (request_buffer q) (w # ws)"
  obtains q' where "TryWrite w q = Running True q'" "awaits ws q'" "same_child q q'"
proof -
  have law: "write_law (request_buffer q) w" "w \<noteq> WriteError"
    using assms(2) by auto
  obtain q' where q': "TryWrite w q = Running True q'"
    using law(2) by (cases w) (simp_all add: TryWrite_def Let_def)
  have "raw_input q' = raw_input q"
    using TryWrite_input [OF assms(1) law(1) q'] by simp
  with TryWrite_Running [OF q'] have "same_child q q'"
    by (simp add: same_child_def)
  moreover have "awaits ws q'"
    using q' assms by (cases w; cases ws) (auto simp: TryWrite_def Let_def awaits_def)
  ultimately show thesis
    using that [OF q'] by blast
qed

lemma Start_awaits:
  assumes "type a = EXEC_RAW" and "exec_ok a" and "stdin_pipe sp \<noteq> None" and "stdout_pipe sp \<noteq> None"
    and "spawn_error sp = 0" and "feeds (hs @ [message m]) (w # ws)"
  obtains q fas where "RawExecRelay_Start a sp w (RawExecRelay_new m hs) = Running True q" "awaits ws q"
    "raw_spawned q = Some (spawn_request_of a fas)" "raw_input q = concat hs @ message m"
    "raw_pidfd q" "response_pipe q" "response_fill q = 1"
proof -
  obtain i j k l where sp: "stdin_pipe sp = Some (i, j)" "stdout_pipe sp = Some (k, l)"
    using assms(3,4) by auto
  let ?fas = "[(i, STDIN_FILENO), (l, STDOUT_FILENO), (l, STDERR_FILENO)]"
  let ?q = "RawExecRelay_new m hs\<lparr>raw_spawned := Some (spawn_request_of a ?fas), raw_pidfd := True,
      response_pipe := True, request_pipe := True, pipe_fds := Some (j, k)\<rparr>"
  have feeds: "feeds (request_buffer ?q) (w # ws)"
    using assms(6) by (simp add: RawExecRelay_new_input)
  obtain q where q: "TryWrite w ?q = Running True q" "awaits ws q" "same_child ?q q"
    by (rule TryWrite_awaits [OF _ feeds]) simp_all
  have "RawExecRelay_Start a sp w (RawExecRelay_new m hs) = Running True q"
    using assms(1,2,5) sp q(1) prepare_spawn_ok [OF assms(2)]
    by (auto simp: RawExecRelay_Start_def Let_def exec_ok_def)
  moreover have "raw_input ?q = concat hs @ message m"
    by (simp add: raw_input_def RawExecRelay_new_input)
  ultimately show thesis
    using q(2,3) by (intro that [of q ?fas]) (simp_all add: same_child_def RawExecRelay_new_def)
qed

section \<open>One connection\<close>

fun run_conn :: "libs \<Rightarrow> (conn_env \<times> conn_event) list \<Rightarrow> connection \<Rightarrow> connection option" where
  "run_conn L [] c = Some c"
| "run_conn L ((E, e) # es) c =
     (if conn_enabled E c e
      then (case conn_step L E e c of Inr c' \<Rightarrow> run_conn L es c' | Inl _ \<Rightarrow> None) else None)"

lemma run_conn_append:
  "run_conn L (es @ es') c = (case run_conn L es c of None \<Rightarrow> None | Some c' \<Rightarrow> run_conn L es' c')"
  by (induction L es c rule: run_conn.induct) (auto split: sum.split)

lemma attach_commit [simp]: "attach (commit k c s) c = c"
  by (simp add: attach_def)

lemma commit_commit [simp]: "commit k c' (commit k c s) = commit k c' s"
  by (simp add: commit_def)

text \<open>The events of one client, in a server.\<close>

lemma run_server_conn:
  "run_conn L es c = Some c' \<Longrightarrow>
    run_server L (map (apsnd (Conn k)) es) (commit k c s) = Some (commit k c' s)"
proof (induction L es c rule: run_conn.induct)
  case (2 L E e es c)
  then obtain c1 where c1: "conn_enabled E c e" "conn_step L E e c = Inr c1" "run_conn L es c1 = Some c'"
    by (auto split: if_splits sum.splits)
  have "server_conn L E k e (commit k c s) = Inr (commit k c1 s)"
    using c1(2) by (simp add: server_conn_def and_then_def commit_def attach_def)
  with c1 "2.IH" [OF c1(1,2)] show ?case
    by simp
qed simp

lemma run_conn_script:
  "\<not> destroyed c \<Longrightarrow> \<exists>as. run_conn L (map (Pair E \<circ> EvLua) calls) c =
      Some (c\<lparr>lua_heap := lua_run L calls (lua_heap c), lua_actions := lua_actions c @ as\<rparr>) \<and>
    (\<forall>a name args. calls \<noteq> [] \<longrightarrow> last calls = CallMethod name args \<longrightarrow>
      (\<forall>h. lua_exec L (last calls) h = Inr ([LAction a], h)) \<longrightarrow> a \<in> set as)"
proof (induction calls arbitrary: c)
  case Nil
  show ?case
    by (rule exI [of _ "[]"]) simp
next
  case (Cons call calls)
  let ?r = "lua_exec L call (lua_heap c)"
  let ?c = "run_lua_call L call c"
  have "\<not> destroyed ?c"
    using Cons.prems by simp
  from Cons.IH [OF this] obtain as where as: "run_conn L (map (Pair E \<circ> EvLua) calls) ?c =
      Some (?c\<lparr>lua_heap := lua_run L calls (lua_heap ?c), lua_actions := lua_actions ?c @ as\<rparr>)"
    "\<forall>a name args. calls \<noteq> [] \<longrightarrow> last calls = CallMethod name args \<longrightarrow>
      (\<forall>h. lua_exec L (last calls) h = Inr ([LAction a], h)) \<longrightarrow> a \<in> set as"
    by blast
  have "run_conn L (map (Pair E \<circ> EvLua) (call # calls)) c =
      Some (c\<lparr>lua_heap := lua_run L (call # calls) (lua_heap c), lua_actions := lua_actions c @ (new_actions call ?r @ as)\<rparr>)"
    using Cons.prems as(1) by (simp add: run_lua_call_def Let_def)
  moreover have "a \<in> set (new_actions call ?r @ as)"
    if "last (call # calls) = CallMethod name args"
      "\<forall>h. lua_exec L (last (call # calls)) h = Inr ([LAction a], h)" for a name args
    using that as(2) by (cases "calls = []") (auto simp: List.map_filter_def CheckLuaAction_def)
  ultimately show ?case
    by blast
qed

text \<open>The connection from the request to the end of the handler's calls.\<close>

definition handled :: "libs \<Rightarrow> conn_env \<Rightarrow> MutableMail \<Rightarrow> Action list \<Rightarrow> connection \<Rightarrow> connection" where
  "handled L E mail as c =
     (let m = NewIncomingMail (received_mail L mail) (conn_peer c)
      in (mail_accepted L E mail c)\<lparr>
        lua_heap := (lua_heap c)(fresh_cell E \<mapsto> test_headers m), lua_actions := lua_actions c @ as\<rparr>)"

lemma run_conn_request:
  assumes "libs_ok L" and "list_all (VerifyEmailAddress L) (sndr # rcpts)" and "rcpts \<noteq> []"
    and "length rcpts \<le> 29" and "length (qmqp_payload msg sndr rcpts) \<le> unat (max_size c)"
    and "state c = INIT" and "\<not> destroyed c" and "lua_heap c (fresh_cell E) = None"
    and "payload = Some (qmqp_payload msg sndr rcpts)"
  obtains mail where "message mail = msg" "sender mail = sndr" "recipients mail = rcpts"
    "headers mail = []" "buffer mail = payload"
    "run_conn L [(E, EvRequest payload)] c = Some (mail_accepted L E mail c)"
proof -
  note laws = libs_okD [OF assms(1)]
  let ?mail = "new_mutable_mail payload\<lparr>message := msg, sender := sndr, tail := '','' @ netstrings rcpts,
    recipients := rcpts\<rparr>"
  have "unat (max_size c) < 2 ^ 64"
    using unsigned_less [of "max_size c"] by simp
  then have "list_all fits64 (msg # sndr # rcpts)"
    using assms(5) fits64_payload [of msg sndr rcpts] by (simp add: fits64_def)
  from parse_qmqp_payload [OF laws(1,2) this assms(2,3), of "new_mutable_mail payload"] assms(4,9)
  have "MutableMail_Parse L (new_mutable_mail payload) = (SUCCESS, ?mail)"
    by (simp add: MutableMail_Parse_def new_mutable_mail_def array_bytes_def MAX_RECIPIENTS_def)
  note step = OnRequest_success [OF assms(6) this, of E]
  have "int (length (array_bytes payload)) \<le> uint (max_size c)"
    unfolding uint_nat of_nat_le_iff assms(9) array_bytes_def by (simp add: assms(5))
  then have "conn_enabled E c (EvRequest payload)"
    using assms(6-8) by simp
  with step have "run_conn L [(E, EvRequest payload)] c = Some (mail_accepted L E ?mail c)"
    by (simp del: conn_enabled.simps)
  then show thesis
    by (rule that [rotated 5]) (simp_all add: new_mutable_mail_def)
qed

lemma accepted_mail:
  "lua_heap (mail_accepted L E mail c) (fresh_cell E) = Some (NewIncomingMail (received_mail L mail) (conn_peer c))"
  by (simp add: mail_accepted_def NewLuaMail_def)

lemma run_conn_handle:
  assumes "libs_ok L" and "\<not> destroyed c" and "headers mail = []" and "length (recipients mail) \<le> 29"
  shows "run_script L (handle prog dest (LMail (fresh_cell E))) (lua_heap (mail_accepted L E mail c)) =
      (handle_calls prog dest (fresh_cell E) (sender mail) (recipients mail),
       Some (LAction (record_action prog dest (sender mail) (recipients mail))))"
    and "\<exists>as. run_conn L (map (Pair E \<circ> EvLua)
        (handle_calls prog dest (fresh_cell E) (sender mail) (recipients mail))) (mail_accepted L E mail c) =
        Some (handled L E mail as c) \<and>
      record_action prog dest (sender mail) (recipients mail) \<in> set as"
proof -
  note laws = libs_okD [OF assms(1)]
  let ?m = "NewIncomingMail (received_mail L mail) (conn_peer c)"
  let ?c = "mail_accepted L E mail c"
  let ?calls = "handle_calls prog dest (fresh_cell E) (sender mail) (recipients mail)"
  have m: "sender ?m = sender mail" "recipients ?m = recipients mail" "fenv ?m = Map.empty"
    by (simp_all add: NewIncomingMail_def received_mail_def MutableMail.extend_def)
  note run = handle_run [of L "lua_heap ?c" "fresh_cell E" ?m, OF laws(4,8) accepted_mail
      _ _ m(3), unfolded NewIncomingMail_fields m(1,2), simplified, OF assms(4)]
  show "run_script L (handle prog dest (LMail (fresh_cell E))) (lua_heap ?c) =
      (?calls, Some (LAction (record_action prog dest (sender mail) (recipients mail))))"
    by (rule run(1))
  obtain as where as: "run_conn L (map (Pair E \<circ> EvLua) ?calls) ?c =
      Some (?c\<lparr>lua_heap := lua_run L ?calls (lua_heap ?c), lua_actions := lua_actions ?c @ as\<rparr>)"
    "record_action prog dest (sender mail) (recipients mail) \<in> set as"
  proof -
    have "\<not> destroyed ?c"
      using assms(2) by (simp add: mail_accepted_def)
    from run_conn_script [OF this, of L E ?calls] obtain as where as:
      "run_conn L (map (Pair E \<circ> EvLua) ?calls) ?c =
        Some (?c\<lparr>lua_heap := lua_run L ?calls (lua_heap ?c), lua_actions := lua_actions ?c @ as\<rparr>)"
      "\<forall>a name args. ?calls \<noteq> [] \<longrightarrow> last ?calls = CallMethod name args \<longrightarrow>
        (\<forall>h. lua_exec L (last ?calls) h = Inr ([LAction a], h)) \<longrightarrow> a \<in> set as"
      by blast
    moreover have "?calls \<noteq> []" "\<exists>args. last ?calls = CallMethod ''exec_raw'' args"
      by (simp_all add: handle_calls_def)
    ultimately show thesis
      using run(3) that by blast
  qed
  have "?c\<lparr>lua_heap := lua_run L ?calls (lua_heap ?c), lua_actions := lua_actions ?c @ as\<rparr> = handled L E mail as c"
    unfolding run(2) by (simp add: handled_def Let_def mail_accepted_def NewLuaMail_def)
  with as show "\<exists>as. run_conn L (map (Pair E \<circ> EvLua) ?calls) ?c = Some (handled L E mail as c) \<and>
      record_action prog dest (sender mail) (recipients mail) \<in> set as"
    by metis
qed

abbreviation the_mail :: "libs \<Rightarrow> MutableMail \<Rightarrow> connection \<Rightarrow> IncomingMail" where
  "the_mail L mail c \<equiv> test_headers (NewIncomingMail (received_mail L mail) (conn_peer c))"

lemma handled_sel [simp]:
  "state (handled L E mail as c) = LUA" "lua_running (handled L E mail as c)"
  "mail_ptr (handled L E mail as c) = Some (fresh_cell E)"
  "lua_heap (handled L E mail as c) (fresh_cell E) = Some (the_mail L mail c)"
  "lua_actions (handled L E mail as c) = lua_actions c @ as" "conn_peer (handled L E mail as c) = conn_peer c"
  "destroyed (handled L E mail as c) = destroyed c" "responses (handled L E mail as c) = responses c"
  by (simp_all add: handled_def mail_accepted_def Let_def)

lemma the_mail_sel [simp]:
  "message (the_mail L mail c) = StripLeft L (message mail)" "sender (the_mail L mail c) = sender mail"
  "headers (the_mail L mail c) =
    [''X-Header2: Bar'' @ CRLF, ''X-Header1: Foo'' @ CRLF] @ headers mail"
  by (simp_all add: test_headers_def)
    (simp_all add: NewIncomingMail_def received_mail_def MutableMail.extend_def)

definition relays_raw :: "RawExecRelay \<Rightarrow> connection \<Rightarrow> connection" where
  "relays_raw q c = c\<lparr>lua_running := False, state := RELAYING, relay_operation := Some (RawExec q)\<rparr>"

lemma relays_raw_sel [simp]:
  "relay_operation (relays_raw q c) = Some (RawExec q)" "destroyed (relays_raw q c) = destroyed c"
  "responses (relays_raw q c) = responses c" "state (relays_raw q c) = RELAYING"
  "mail_ptr (relays_raw q c) = mail_ptr c" "lua_heap (relays_raw q c) = lua_heap c"
  "(relays_raw q c)\<lparr>relay_operation := Some (RawExec q')\<rparr> = relays_raw q' c"
  by (simp_all add: relays_raw_def)

text \<open>The action is carried out: the child is started and gets its first bytes.\<close>

lemma run_conn_start:
  assumes "\<not> destroyed c" and "record_action prog dest sndr rcpts \<in> set as" and "length rcpts \<le> 29"
    and "stdin_pipe (os E) \<noteq> None" and "stdout_pipe (os E) \<noteq> None" and "spawn_error (os E) = 0"
    and "feeds (AssembleHeaders L (conn_peer c) (the_mail L mail c) @ [StripLeft L (message mail)]) (pipe_write E # ws)"
  obtains q fas where "run_conn L [(E, EvLuaFinished (LAction (record_action prog dest sndr rcpts)))] (handled L E mail as c) =
      Some (relays_raw q (handled L E mail as c))" "awaits ws q"
    "raw_spawned q = Some (spawn_request_of (record_action prog dest sndr rcpts) fas)"
    "raw_input q = concat (AssembleHeaders L (conn_peer c) (the_mail L mail c)) @ StripLeft L (message mail)"
    "raw_pidfd q" "response_pipe q" "response_fill q = 1"
proof -
  let ?a = "record_action prog dest sndr rcpts" and ?m = "the_mail L mail c"
  let ?hs = "AssembleHeaders L (conn_peer c) ?m" and ?c = "handled L E mail as c"
  have a: "type ?a = EXEC_RAW" "exec_ok ?a" "timeout ?a = -1"
    using assms(3) by (simp_all add: record_action_def exec_ok_def MAX_EXEC_def MAX_ENV_def)
  obtain q fas where q: "RawExecRelay_Start ?a (os E) (pipe_write E) (RawExecRelay_new ?m ?hs) = Running True q"
      "awaits ws q" "raw_spawned q = Some (spawn_request_of ?a fas)" "raw_input q = concat ?hs @ message ?m"
      "raw_pidfd q" "response_pipe q" "response_fill q = 1"
    by (rule Start_awaits [OF a(1,2) assms(4-6), of ?hs ?m "pipe_write E" ws]) (use assms(7) in auto)
  have "OnLuaFinished L E (LAction ?a) (?c\<lparr>lua_running := False\<rparr>) = Inr (relays_raw q ?c)"
    using a q(1) by (simp add: OnLuaFinished_def CheckLuaAction_def Do_def DoRawExec_def finish_start_def
        schedule_timeout_def relays_raw_def)
  moreover have "conn_enabled E ?c (EvLuaFinished (LAction ?a))"
    using assms(1,2) by simp
  ultimately have "run_conn L [(E, EvLuaFinished (LAction ?a))] ?c = Some (relays_raw q ?c)"
    by (simp del: conn_enabled.simps)
  then show thesis
    using q(2-) by (intro that) simp_all
qed

lemma run_conn_feed:
  assumes "awaits ws q" and "\<not> destroyed c"
  shows "\<exists>q'. run_conn L (map (\<lambda>w. (E, EvRelay (RawEvent (RequestReady w)))) ws) (relays_raw q c) =
      Some (relays_raw q' c) \<and> awaits [] q' \<and> same_child q q'"
  using assms(1)
proof (induction ws arbitrary: q)
  case Nil
  then show ?case
    by (auto simp: same_child_def)
next
  case (Cons w ws)
  then have q: "request_pipe q" "feeds (request_buffer q) (w # ws)"
    by (simp_all add: awaits_def)
  obtain q1 where q1: "TryWrite w q = Running True q1" "awaits ws q1" "same_child q q1"
    by (rule TryWrite_awaits [OF q])
  have "OnRelayEvent L E (RawEvent (RequestReady w)) (relays_raw q c) = Inr (relays_raw q1 c)"
    using q1(1) by (simp add: OnRelayEvent_def OnRequestPipeReady_def)
  with Cons.IH [OF q1(2)] q1(3) q(1) assms(2) show ?case
    by (auto simp: same_child_def)
qed

text \<open>The child closes its output and exits.\<close>

abbreviation hung_up :: conn_event where
  "hung_up \<equiv> EvRelay (RawEvent (ResponseReady \<lparr>hangup = True, others = False\<rparr> (ReadBytes [])))"

abbreviation exited_well :: conn_event where
  "exited_well \<equiv> EvRelay (RawEvent (RawChildExit (exited 0)))"

lemma run_conn_end:
  assumes "raw_pidfd q" and "response_pipe q" and "response_fill q = 1"
    and "\<not> destroyed c" and "mail_ptr c = Some j" and "lua_heap c j \<noteq> None"
  obtains c' where "run_conn L (map (Pair E) [hung_up, exited_well]) (relays_raw q c) = Some c'"
    "destroyed c'" "responses c' = responses c @ [''K'']"
proof -
  let ?q1 = "q\<lparr>response_pipe := False\<rparr>"
  have step: "OnRelayEvent L E (RawEvent (ResponseReady \<lparr>hangup = True, others = False\<rparr> (ReadBytes []))) (relays_raw q c) =
      Inr (relays_raw ?q1 c)"
    using assms(1) by (simp add: OnRelayEvent_def OnResponsePipeReady_def close_response_pipe_def)
  have "0 \<le> sint (exited 0)" "\<not> WIFSIGNALED (exited 0)" "WEXITSTATUS (exited 0) = EXIT_SUCCESS"
    using child_succeeded_exited [of 0] by (simp_all add: child_succeeded_def)
  then obtain q2 where call: "RawExecRelay_OnChildProcessExit (exited 0) ?q1 = Finished () q2 (RelayResponse ''K'')"
    using assms(3) by (auto simp: RawExecRelay_OnChildProcessExit_def RawExecRelay_Finish_def Let_def)
  have "may_answer (relays_raw q2 c)"
    using assms(4-6) by (simp add: may_answer_def may_end_def)
  from call_handler_eq [OF this, of "RelayResponse ''K''" L E]
  have "OnRelayEvent L E (RawEvent (RawChildExit (exited 0))) (relays_raw ?q1 c) =
      Inr (ended L E [] [''K''] (relays_raw q2 c))"
    using call by (simp add: OnRelayEvent_def)
  with step assms(1-4) have "run_conn L (map (Pair E) [hung_up, exited_well]) (relays_raw q c) =
      Some (ended L E [] [''K''] (relays_raw q2 c))"
    by simp
  then show thesis
    by (rule that) simp_all
qed

section \<open>A mail in a server\<close>

lemma server_accept_commit:
  "server_step L E (Accept l k now p) s = Inr (commit k (connection_new L l now p (srv_heap s) (srv_actions s)) s)"
  by (simp add: server_step_commit)

lemma connection_new_sel:
  "state (connection_new L l now p h as) = INIT" "\<not> destroyed (connection_new L l now p h as)"
  "max_size (connection_new L l now p h as) = listener_max_size l"
  "lua_heap (connection_new L l now p h as) = h" "conn_peer (connection_new L l now p h as) = p"
  "responses (connection_new L l now p h as) = []"
  by (simp_all add: connection_new_def)

lemma server_handled:
  assumes "libs_ok L" and "list_all (VerifyEmailAddress L) (sndr # rcpts)" and "rcpts \<noteq> []"
    and "length rcpts \<le> 29" and "length (qmqp_payload msg sndr rcpts) \<le> unat (listener_max_size l)"
    and "l \<in> set (srv_listeners s)" and "conns s k = None" and "srv_heap s (fresh_cell E) = None"
    and "c = connection_new L l now p (srv_heap s) (srv_actions s)"
  obtains mail as where "message mail = msg" "sender mail = sndr" "recipients mail = rcpts" "headers mail = []"
    "run_server L (map (Pair E) [Accept l k now p, Conn k (EvRequest (Some (qmqp_payload msg sndr rcpts)))]) s =
      Some (commit k (mail_accepted L E mail c) s)"
    "script_events L (handle prog dest (LMail (fresh_cell E))) (lua_heap (mail_accepted L E mail c)) =
      map EvLua (handle_calls prog dest (fresh_cell E) sndr rcpts) @
      [EvLuaFinished (LAction (record_action prog dest sndr rcpts))]"
    "run_conn L (map (Pair E \<circ> EvLua) (handle_calls prog dest (fresh_cell E) sndr rcpts)) (mail_accepted L E mail c) =
      Some (handled L E mail as c)"
    "record_action prog dest sndr rcpts \<in> set as"
proof -
  note new = connection_new_sel [of L l now p "srv_heap s" "srv_actions s", folded assms(9)]
  obtain mail where mail: "message mail = msg" "sender mail = sndr" "recipients mail = rcpts" "headers mail = []"
      "run_conn L [(E, EvRequest (Some (qmqp_payload msg sndr rcpts)))] c = Some (mail_accepted L E mail c)"
    by (rule run_conn_request [OF assms(1-4), of msg c E "Some (qmqp_payload msg sndr rcpts)"])
      (use new assms in auto)
  have "run_server L (map (Pair E) [Accept l k now p, Conn k (EvRequest (Some (qmqp_payload msg sndr rcpts)))]) s =
      Some (commit k (mail_accepted L E mail c) s)"
    using run_server_conn [OF mail(5), of k s] assms(6,7,9)
    by (simp add: server_accept_commit del: server_step.simps(1))
  with mail run_conn_handle [OF assms(1) new(2) mail(4), where prog = prog and dest = dest and E = E] assms(4) that show thesis
    by (fastforce simp: script_events_def)
qed

section \<open>The recording program\<close>

text \<open>\<open>test/record.py\<close>: what it writes to its file, given its arguments and its input; if there
  are too few of them, it exits with an error.\<close>

definition record_file :: "string list \<Rightarrow> string \<Rightarrow> string option" where
  "record_file args input =
     (if length args < 4 then None
      else Some (concat (map (\<lambda>i. i @ [LF]) (drop 2 args)) @ [LF] @ input))"

text \<open>The test opens the recorded file as a text: each line ending is read as a line feed.\<close>

fun read_text :: "string \<Rightarrow> string" where
  "read_text [] = []"
| "read_text [c] = [if c = CR then LF else c]"
| "read_text (c # d # t) =
     (if c = CR \<and> d = LF then LF # read_text t
      else (if c = CR then LF else c) # read_text (d # t))"

text \<open>\<open>test/test.py\<close>: the mail it submits, the process that does, and what it expects to read.\<close>

definition test_message :: string where
  "test_message = ''Subject: Hello!'' @ [LF, LF] @ ''hello world'' @ [LF]"

definition test_sender :: string where
  "test_sender = ''nobody@localhost''"

definition test_recipients :: "string list" where
  "test_recipients = [''foo@example.com'', ''bar@example.com'']"

definition test_peer :: peer_auth where
  "test_peer = \<lparr>have_cred = True, pid = 4711, uid = 1000, gid = 1000\<rparr>"

definition test_expected :: string where
  "test_expected = test_sender @ [LF] @ ''foo@example.com'' @ [LF] @ ''bar@example.com'' @ [LF] @
     [LF] @ ''X-Header2: Bar'' @ [LF] @ ''X-Header1: Foo'' @ [LF] @
     ''Received: from PID=4711 UID=1000 with QMQP'' @ [LF] @
     ''Subject: Hello!'' @ [LF] @ [LF] @ ''hello world'' @ [LF]"

text \<open>An environment in which children can be started, and the configuration.\<close>

definition test_env :: conn_env where
  "test_env = \<lparr>log_defined = False, send_ok = True, system_now = 0, steady_now = 0,
     os = sample_spawn_env, pipe_write = WriteFinished, fresh_cell = 0\<rparr>"

definition test_os :: os_env where
  "test_os = ref_os ''/test/config.lua'' [CallListen [LString ''/run/qrelay.socket'', LFunction ''handle'']]"

definition test_listener :: listener where
  "test_listener = \<lparr>listener_fd = 5, listener_max_size = 16777216, listener_handler = LFunction ''handle''\<rparr>"

abbreviation test_payload :: string where
  "test_payload \<equiv> qmqp_payload test_message test_sender test_recipients"

lemma test_mail:
  "list_all (VerifyEmailAddress ref_libs) (test_sender # test_recipients)" "length test_payload \<le> 16777216"
  "StripLeft ref_libs test_message = test_message" "test_recipients \<noteq> []" "length test_recipients \<le> 29"
  "have_cred test_peer"
  by code_simp+

lemma test_recorded:
  "read_text (concat (map (\<lambda>i. c_str i @ [LF]) (test_sender # test_recipients)) @ [LF] @
     ''X-Header2: Bar'' @ CRLF @ ''X-Header1: Foo'' @ CRLF @ received_line test_peer @ test_message) = test_expected"
  by code_simp

text \<open>The mail of the test in a server that has just started, up to the start of the relay.\<close>

abbreviation test_calls :: "lua_call list" where
  "test_calls \<equiv> handle_calls ''/t/record.py'' ''/r/record'' 0 test_sender test_recipients"

abbreviation test_action :: Action where
  "test_action \<equiv> record_action ''/t/record.py'' ''/r/record'' test_sender test_recipients"

lemma test_env_sel:
  "fresh_cell test_env = 0" "stdin_pipe (os test_env) \<noteq> None" "stdout_pipe (os test_env) \<noteq> None"
  "spawn_error (os test_env) = 0" "pipe_write test_env = WriteFinished"
  by (simp_all add: test_env_def)

lemma new_server:
  "srv_listeners (server_new [l]) = [l]" "conns (server_new [l]) k = None" "srv_heap (server_new [l]) j = None"
  by (simp_all add: server_new_def)

lemma test_reached:
  obtains es c mail as q where "conn_peer c = test_peer" "\<not> destroyed c" "message mail = test_message"
    "sender mail = test_sender" "headers mail = []"
    "server_trace ref_libs es (commit 0 (handled ref_libs test_env mail as c) (server_new [test_listener]))"
    "Conn 0 (EvRequest (Some test_payload)) \<in> set es"
    "run_conn ref_libs [(test_env, EvLuaFinished (LAction test_action))] (handled ref_libs test_env mail as c) =
      Some (relays_raw q (handled ref_libs test_env mail as c))"
    "response_pipe q"
proof -
  let ?new = "server_new [test_listener]"
  define c where "c = connection_new ref_libs test_listener 0 test_peer (srv_heap ?new) (srv_actions ?new)"
  note sel = connection_new_sel [of ref_libs test_listener 0 test_peer "srv_heap ?new" "srv_actions ?new", folded c_def]
  have fits: "length test_payload \<le> unat (listener_max_size test_listener)" "test_listener \<in> set (srv_listeners ?new)"
    using test_mail(2) by (simp_all add: test_listener_def new_server)
  obtain mail as where mail: "message mail = test_message" "sender mail = test_sender" "headers mail = []"
    and s1: "run_server ref_libs (map (Pair test_env) [Accept test_listener 0 0 test_peer,
      Conn 0 (EvRequest (Some test_payload))]) ?new = Some (commit 0 (mail_accepted ref_libs test_env mail c) ?new)"
    and calls: "run_conn ref_libs (map (Pair test_env \<circ> EvLua) test_calls) (mail_accepted ref_libs test_env mail c) =
      Some (handled ref_libs test_env mail as c)"
    and a: "test_action \<in> set as"
    by (rule server_handled [where E = test_env and k = 0 and prog = "''/t/record.py''" and dest = "''/r/record''",
        OF ref_libs_ok test_mail(1,4,5) fits new_server(2,3) c_def, unfolded test_env_sel(1)]) blast
  let ?c = "handled ref_libs test_env mail as c"
  obtain q where start: "run_conn ref_libs [(test_env, EvLuaFinished (LAction test_action))] ?c = Some (relays_raw q ?c)"
      "response_pipe q"
    by (rule run_conn_start [OF sel(2) a test_mail(5) test_env_sel(2-4), of ref_libs mail "[]"])
      (simp add: test_env_sel(5))
  have "run_server ref_libs (map (apsnd (Conn 0)) (map (Pair test_env \<circ> EvLua) test_calls))
      (commit 0 (mail_accepted ref_libs test_env mail c) ?new) = Some (commit 0 ?c ?new)"
    by (rule run_server_conn [OF calls])
  from server_trace_run [OF run_server_trace [OF s1] run_server_run [OF this]] that [OF sel(5,2) mail _ _ start]
  show thesis
    by fastforce
qed

lemma test_main:
  obtains i where "main ref_build ref_libs ref_startup test_os [''qrelay'', ''--config'', ''/test/config.lua'']
    ''/root'' 0 = Inr i" "listeners i = [test_listener]"
  using plain_start [of ref_startup ref_libs "''config.lua''" "''/test''" test_os "''/run/qrelay.socket''"
      "''handle''" 5 ref_build "''qrelay''" "''/root''" 0]
  by (auto simp: plain_laws test_listener_def test_os_def ref_os_def)

section \<open>Properties\<close>

text \<open>C6: The integration test of the repository succeeds, for any mail. A server is started with
  the configuration of the test, and whatever it is doing (\<open>s\<close> is any of its states): a
  local process submits a mail of at most 29 recipients, within the size limit; the handler
  of the test runs, inserts two headers and hands the mail to the recording program, whose
  child process can be started and takes its input in as many steps as it needs. Then the
  program has got the file, the sender and the recipients as arguments; the bytes that
  have gone into its input are the two headers, the newer one first, the \<open>Received\<close> line
  and the message without leading blanks, and its end is closed; so it records the
  envelope, an empty line and the mail. When it has closed its output and exited with
  success, the client is told \<open>K\<close> and its connection is deleted.\<close>

theorem integration_test:
  assumes "libs_ok L" and "log_server_law S"
    and "lua_tointeger L (Finite (of_int DEFAULT_MAX_SIZE)) = DEFAULT_MAX_SIZE"
    and "CHR ''/'' \<notin> set name" and "hd (cdir @ CHR ''/'' # name) = CHR ''/''"
    and "cdir = [] \<or> directory sys cdir" and "directory sys ''/''"
    and "script_file sys (cdir @ CHR ''/'' # name) = Some [CallListen [LString address, LFunction ''handle'']]"
    and "create_socket sys \<lparr>bind_address = address, listen = 64, mode = 438, pass_cred = True\<rparr> = Some fd"
    and "list_all (VerifyEmailAddress L) (sndr # rcpts)" and "rcpts \<noteq> []" and "length rcpts \<le> 29"
    and "length (qmqp_payload msg sndr rcpts) \<le> 16777216" and "have_cred p"
    and "l = \<lparr>listener_fd = fd, listener_max_size = 16777216, listener_handler = LFunction ''handle''\<rparr>"
    and "srv_listeners s = [l]" and "conns s k = None" and "srv_heap s (fresh_cell E) = None"
    and "stdin_pipe (os E) \<noteq> None" and "stdout_pipe (os E) \<noteq> None" and "spawn_error (os E) = 0"
    and "feeds [''X-Header2: Bar'' @ CRLF, ''X-Header1: Foo'' @ CRLF, received_line p, StripLeft L msg]
      (pipe_write E # ws)"
  shows "(\<exists>i. main B L S sys [prog0, ''--config'', cdir @ CHR ''/'' # name] dir fds = Inr i \<and> running i \<and>
      listeners i = [l]) \<and>
    (\<exists>s1 s2 s3 c2 q r c3 input.
      run_server L (map (Pair E) [Accept l k now p, Conn k (EvRequest (Some (qmqp_payload msg sndr rcpts)))]) s =
        Some s1 \<and>
      run_server L (map (Pair E \<circ> Conn k) (script_events L (handle prog dest (LMail (fresh_cell E))) (srv_heap s1) @
        map (EvRelay \<circ> RawEvent \<circ> RequestReady) ws)) s1 = Some s2 \<and>
      conns s2 k = Some c2 \<and> relay_operation c2 = Some (RawExec q) \<and>
      raw_spawned q = Some r \<and> spawn_argv r = map c_str ([prog, dest, sndr] @ rcpts) \<and>
      input_written q = input \<and> \<not> request_pipe q \<and>
      input = ''X-Header2: Bar'' @ CRLF @ ''X-Header1: Foo'' @ CRLF @ received_line p @ StripLeft L msg \<and>
      record_file (spawn_argv r) input = Some (concat (map (\<lambda>i. c_str i @ [LF]) (sndr # rcpts)) @ [LF] @ input) \<and>
      run_server L (map (Pair E \<circ> Conn k) [hung_up, exited_well]) s2 = Some s3 \<and>
      conns s3 k = Some c3 \<and> destroyed c3 \<and> responses c3 = [''K''])"
proof
  show "\<exists>i. main B L S sys [prog0, ''--config'', cdir @ CHR ''/'' # name] dir fds = Inr i \<and> running i \<and>
      listeners i = [l]"
    using plain_start [OF assms(2-9), of B prog0 dir fds] assms(15) by blast
next
  let ?a = "record_action prog dest sndr rcpts" and ?calls = "handle_calls prog dest (fresh_cell E) sndr rcpts"
  define c where "c = connection_new L l now p (srv_heap s) (srv_actions s)"
  note new = connection_new_sel [of L l now p "srv_heap s" "srv_actions s", folded c_def]
  have fits: "length (qmqp_payload msg sndr rcpts) \<le> unat (listener_max_size l)"
    using assms(13,15) by simp
  have listening: "l \<in> set (srv_listeners s)"
    using assms(16) by simp
  obtain mail as where mail: "message mail = msg" "headers mail = []"
    and s1: "run_server L (map (Pair E) [Accept l k now p, Conn k (EvRequest (Some (qmqp_payload msg sndr rcpts)))]) s =
      Some (commit k (mail_accepted L E mail c) s)"
    and events: "script_events L (handle prog dest (LMail (fresh_cell E))) (lua_heap (mail_accepted L E mail c)) =
      map EvLua ?calls @ [EvLuaFinished (LAction ?a)]"
    and calls: "run_conn L (map (Pair E \<circ> EvLua) ?calls) (mail_accepted L E mail c) = Some (handled L E mail as c)"
    and a: "?a \<in> set as"
    by (rule server_handled [OF assms(1,10,11,12) fits listening assms(17,18) c_def]) blast
  let ?c = "handled L E mail as c" and ?hs = "AssembleHeaders L (conn_peer c) (the_mail L mail c)"
  have hs: "?hs = [''X-Header2: Bar'' @ CRLF, ''X-Header1: Foo'' @ CRLF, received_line p]"
    unfolding AssembleHeaders_eq [OF libs_okD(8) [OF assms(1)]] the_mail_sel mail(2)
    by (simp add: assms(14) new(5))
  have feeds: "feeds (?hs @ [StripLeft L (message mail)]) (pipe_write E # ws)"
    using assms(22) by (simp add: hs mail(1))
  obtain q0 fas where start: "run_conn L [(E, EvLuaFinished (LAction ?a))] ?c = Some (relays_raw q0 ?c)"
    and q0: "awaits ws q0" "raw_spawned q0 = Some (spawn_request_of ?a fas)"
      "raw_input q0 = concat ?hs @ StripLeft L (message mail)" "raw_pidfd q0" "response_pipe q0" "response_fill q0 = 1"
    by (rule run_conn_start [OF new(2) a assms(12,19-21) feeds])
  obtain q where feed: "run_conn L (map (\<lambda>w. (E, EvRelay (RawEvent (RequestReady w)))) ws) (relays_raw q0 ?c) =
      Some (relays_raw q ?c)" and q: "awaits [] q" "same_child q0 q"
    using run_conn_feed [OF q0(1), of ?c L E] new(2) by auto
  let ?s2 = "commit k (relays_raw q ?c) s"
  let ?es = "script_events L (handle prog dest (LMail (fresh_cell E))) (lua_heap (mail_accepted L E mail c)) @
        map (EvRelay \<circ> RawEvent \<circ> RequestReady) ws"
  have "map (Pair E) ?es = map (Pair E \<circ> EvLua) ?calls @ [(E, EvLuaFinished (LAction ?a))] @
      map (\<lambda>w. (E, EvRelay (RawEvent (RequestReady w)))) ws"
    unfolding events by simp
  then have "run_conn L (map (Pair E) ?es) (mail_accepted L E mail c) = Some (relays_raw q ?c)"
    by (simp only: run_conn_append calls start feed option.case)
  from run_server_conn [OF this, of k s]
  have s2: "run_server L (map (Pair E \<circ> Conn k) ?es) (commit k (mail_accepted L E mail c) s) = Some ?s2"
    by (simp add: comp_def)
  have child: "raw_pidfd q" "response_pipe q" "response_fill q = 1"
    using q(2) q0(4-6) by (simp_all add: same_child_def)
  obtain c3 where fin: "run_conn L (map (Pair E) [hung_up, exited_well]) (relays_raw q ?c) = Some c3"
      "destroyed c3" "responses c3 = responses ?c @ [''K'']"
    by (rule run_conn_end [OF child, of ?c "fresh_cell E" L E]) (use new(2) in simp_all)
  have s3: "run_server L (map (Pair E \<circ> Conn k) [hung_up, exited_well]) ?s2 = Some (commit k c3 s)"
    using run_server_conn [OF fin(1), of k s] by (simp add: comp_def del: run_server.simps)
  have "input_written q = ''X-Header2: Bar'' @ CRLF @ ''X-Header1: Foo'' @ CRLF @ received_line p @ StripLeft L msg"
    using awaits_done [OF q(1)] q(2) q0(3) by (simp add: same_child_def hs mail(1))
  moreover have "raw_spawned q = Some (spawn_request_of ?a fas)" "\<not> request_pipe q"
    using q q0(2) by (simp_all add: awaits_def same_child_def)
  moreover have "spawn_argv (spawn_request_of ?a fas) = map c_str ([prog, dest, sndr] @ rcpts)"
    by (simp add: spawn_request_of_def record_action_def)
  moreover have "record_file (map c_str ([prog, dest, sndr] @ rcpts)) input =
      Some (concat (map (\<lambda>i. c_str i @ [LF]) (sndr # rcpts)) @ [LF] @ input)" for input
    using assms(11) by (cases rcpts) (simp_all add: record_file_def comp_def)
  ultimately show "\<exists>s1 s2 s3 c2 q r c3 input.
      run_server L (map (Pair E) [Accept l k now p, Conn k (EvRequest (Some (qmqp_payload msg sndr rcpts)))]) s =
        Some s1 \<and>
      run_server L (map (Pair E \<circ> Conn k) (script_events L (handle prog dest (LMail (fresh_cell E))) (srv_heap s1) @
        map (EvRelay \<circ> RawEvent \<circ> RequestReady) ws)) s1 = Some s2 \<and>
      conns s2 k = Some c2 \<and> relay_operation c2 = Some (RawExec q) \<and>
      raw_spawned q = Some r \<and> spawn_argv r = map c_str ([prog, dest, sndr] @ rcpts) \<and>
      input_written q = input \<and> \<not> request_pipe q \<and>
      input = ''X-Header2: Bar'' @ CRLF @ ''X-Header1: Foo'' @ CRLF @ received_line p @ StripLeft L msg \<and>
      record_file (spawn_argv r) input = Some (concat (map (\<lambda>i. c_str i @ [LF]) (sndr # rcpts)) @ [LF] @ input) \<and>
      run_server L (map (Pair E \<circ> Conn k) [hung_up, exited_well]) s2 = Some s3 \<and>
      conns s3 k = Some c3 \<and> destroyed c3 \<and> responses c3 = [''K'']"
    using s1 s2 s3 fin(2,3) new(6)
    by (intro exI [of _ "commit k (mail_accepted L E mail c) s"] exI [of _ ?s2] exI [of _ "commit k c3 s"]
        exI [of _ "relays_raw q ?c"] exI [of _ q] exI [of _ "spawn_request_of ?a fas"] exI [of _ c3]
        exI [of _ "''X-Header2: Bar'' @ CRLF @ ''X-Header1: Foo'' @ CRLF @ received_line p @ StripLeft L msg"])
      (simp del: run_server.simps)
qed

theorem integration_test_witness:
  "\<exists>s1 s2 s3 c2 q r c3 t.
    run_server ref_libs (map (Pair test_env) [Accept test_listener 0 0 test_peer,
      Conn 0 (EvRequest (Some test_payload))]) (server_new [test_listener]) = Some s1 \<and>
    run_server ref_libs (map (Pair test_env \<circ> Conn 0)
      (script_events ref_libs (handle ''/t/record.py'' ''/r/record'' (LMail 0)) (srv_heap s1))) s1 = Some s2 \<and>
    conns s2 0 = Some c2 \<and> relay_operation c2 = Some (RawExec q) \<and> raw_spawned q = Some r \<and>
    record_file (spawn_argv r) (input_written q) = Some t \<and> read_text t = test_expected \<and>
    run_server ref_libs (map (Pair test_env \<circ> Conn 0) [hung_up, exited_well]) s2 = Some s3 \<and>
    conns s3 0 = Some c3 \<and> responses c3 = [''K'']"
proof -
  have sys: "script_file test_os (''/test'' @ CHR ''/'' # ''config.lua'') =
      Some [CallListen [LString ''/run/qrelay.socket'', LFunction ''handle'']]"
      "create_socket test_os conf = Some 5" "directory test_os d" for conf d
    by (simp_all add: test_os_def ref_os_def)
  have path: "CHR ''/'' \<notin> set ''config.lua''" "hd (''/test'' @ CHR ''/'' # ''config.lua'') = CHR ''/''"
      "''/test'' = [] \<or> directory test_os ''/test''" "directory test_os ''/''"
    using sys(3) by simp_all
  have feeds: "feeds [''X-Header2: Bar'' @ CRLF, ''X-Header1: Foo'' @ CRLF, received_line test_peer,
      StripLeft ref_libs test_message] [pipe_write test_env]"
    by (simp add: test_env_def)
  from integration_test [where k = 0 and now = 0 and prog = "''/t/record.py''" and dest = "''/r/record''",
        THEN conjunct2, OF ref_libs_ok plain_laws(1,2) path sys(1,2) test_mail(1,4,5,2,6)
      test_listener_def new_server test_env_sel(2-4) feeds]
  obtain s1 s2 s3 c2 q r c3 input where
    "run_server ref_libs (map (Pair test_env) [Accept test_listener 0 0 test_peer,
      Conn 0 (EvRequest (Some test_payload))]) (server_new [test_listener]) = Some s1"
    "run_server ref_libs (map (Pair test_env \<circ> Conn 0)
      (script_events ref_libs (handle ''/t/record.py'' ''/r/record'' (LMail 0)) (srv_heap s1))) s1 = Some s2"
    "conns s2 0 = Some c2" "relay_operation c2 = Some (RawExec q)" "raw_spawned q = Some r"
    "input_written q = input"
    "input = ''X-Header2: Bar'' @ CRLF @ ''X-Header1: Foo'' @ CRLF @ received_line test_peer @ test_message"
    "record_file (spawn_argv r) input =
      Some (concat (map (\<lambda>i. c_str i @ [LF]) (test_sender # test_recipients)) @ [LF] @ input)"
    "run_server ref_libs (map (Pair test_env \<circ> Conn 0) [hung_up, exited_well]) s2 = Some s3"
    "conns s3 0 = Some c3" "responses c3 = [''K'']"
    unfolding test_env_sel(1) test_mail(3) list.map(1) append_Nil2 by blast
  with test_recorded show ?thesis
    by metis
qed

end
