(* ===== verification/Hazard.thy ===== *)
theory Hazard
  imports Integration
begin

text \<open>
  The one way in which the server can go wrong, and that it can be reached: reading the output
  of a raw child fails while the event mask of the pipe has the hang-up bit and another one.
\<close>

abbreviation failed_read :: "nat \<Rightarrow> pipe_events \<Rightarrow> server_event" where
  "failed_read k ev \<equiv> Conn k (EvRelay (RawEvent (ResponseReady ev ReadError)))"

lemma server_hazard_iff:
  "server_hazard e \<longleftrightarrow> (\<exists>k ev. e = failed_read k ev \<and> hangup ev \<and> others ev)"
proof (cases e)
  case (Conn k x)
  then show ?thesis
  proof (cases x)
    case (EvRelay r)
    then show ?thesis
    proof (cases r)
      case (RawEvent ev)
      with Conn EvRelay show ?thesis
        by (cases ev) (auto split: read_result.splits elim: raw_hazard.elims)
    qed (use Conn in auto)
  qed auto
qed auto

text \<open>The connection to which such an event happens has a raw relay.\<close>

lemma failed_read_enabled:
  assumes "server_enabled E s (failed_read k ev)"
  obtains c q where "conns s k = Some c" "\<not> destroyed c" "relay_operation c = Some (RawExec q)"
    "conn_enabled E (attach s c) (EvRelay (RawEvent (ResponseReady ev ReadError)))"
proof -
  from assms obtain c where c: "conns s k = Some c" "\<not> destroyed c"
      "conn_enabled E (attach s c) (EvRelay (RawEvent (ResponseReady ev ReadError)))"
    by (auto split: option.splits)
  then obtain r where "relay_operation c = Some r" "relay_enabled r (RawEvent (ResponseReady ev ReadError))"
    by (auto simp: attach_def split: option.splits)
  with c that show thesis
    by (cases r) auto
qed

lemma failed_read_crash:
  assumes "server_enabled E s (failed_read k ev)" and "hangup ev" and "others ev"
  shows "server_step L E (failed_read k ev) s = Inl UseAfterFree"
proof -
  obtain c q where "conns s k = Some c" "relay_operation c = Some (RawExec q)"
    using failed_read_enabled [OF assms(1)] by metis
  with assms(2,3) show ?thesis
    by (simp add: server_conn_def OnRelayEvent_def attach_def OnResponsePipeReady_def TryRead_error and_then_def)
qed

lemma failed_read_answered:
  assumes "libs_ok L" and "server_trace L es s" and "server_enabled E s (failed_read k ev)" and "\<not> hangup ev"
  shows "\<exists>s' c'. server_step L E (failed_read k ev) s = Inr s' \<and> conns s' k = Some c' \<and>
    destroyed c' \<and> responses c' = [''Zread error'']"
proof -
  let ?x = "EvRelay (RawEvent (ResponseReady ev ReadError))"
  obtain c q where c: "conns s k = Some c" "\<not> destroyed c" "relay_operation c = Some (RawExec q)"
      "conn_enabled E (attach s c) ?x"
    by (rule failed_read_enabled [OF assms(3)])
  have trace: "conn_trace L (events_of k es) (attach s c)"
    by (rule server_invD(1) [OF server_trace_inv [OF assms(1,2)] c(1)])
  have "\<not> server_hazard (failed_read k ev)"
    using assms(4) by simp
  from server_total [OF assms(1-3) this] obtain s' where s': "server_step L E (failed_read k ev) s = Inr s'"
    by blast
  then obtain c' where c': "conn_step L E ?x (attach s c) = Inr c'" "conns s' k = Some c'"
    using c(1) by (auto simp: server_conn_def and_then_Inr)
  have relay: "relay_operation (attach s c) = Some (RawExec q)"
    using c(3) by (simp add: attach_def)
  have call: "relay_step (RawEvent (ResponseReady ev ReadError)) (RawExec q) =
      Finished () (RawExec q) (RelayError ''Zread error'')"
    using assms(4) by (simp add: OnResponsePipeReady_def TryRead_error)
  have "turns L E ?x (attach s c) c'"
    using trace_turns [OF assms(1) trace c(4) c'(1)] by simp
  then have "destroyed c' \<and> responses c' = [''Zread error'']"
  proof (cases rule: turns.cases)
    case (relay_calls r r' call')
    with relay call have "call' = RelayError ''Zread error''"
      by simp
    with relay_calls(5) answers_dead [OF relay_calls(6)] show ?thesis
      by (simp add: call_ok_good dead_def good_defs)
  qed (use relay call in simp_all)
  with s' c'(2) show ?thesis
    by blast
qed

text \<open>A state in which it can occur: the mail of the integration test is being relayed.\<close>

abbreviation broken_pipe :: pipe_events where
  "broken_pipe \<equiv> \<lparr>hangup = True, others = True\<rparr>"

lemma failed_read_reached:
  "\<exists>es s. server_trace ref_libs es s \<and> srv_listeners s = [test_listener] \<and>
    server_enabled test_env s (failed_read 0 broken_pipe)"
proof -
  obtain es c0 mail as q where c0: "\<not> destroyed c0" "response_pipe q"
    and trace: "server_trace ref_libs es (commit 0 (handled ref_libs test_env mail as c0) (server_new [test_listener]))"
    and start: "run_conn ref_libs [(test_env, EvLuaFinished (LAction test_action))] (handled ref_libs test_env mail as c0) =
      Some (relays_raw q (handled ref_libs test_env mail as c0))"
    by (rule test_reached)
  let ?s = "commit 0 (relays_raw q (handled ref_libs test_env mail as c0)) (server_new [test_listener])"
  obtain es' where "server_trace ref_libs es' ?s"
    using server_trace_run [OF trace run_server_run [OF run_server_conn [OF start]]] by blast
  moreover have "srv_listeners ?s = [test_listener]" "server_enabled test_env ?s (failed_read 0 broken_pipe)"
    using c0 by (simp_all add: new_server)
  ultimately show ?thesis
    by blast
qed

section \<open>Properties\<close>

text \<open>C34: The one crash. Of the events that can occur in a reachable state of a server, exactly
  these crash it: a read error on the output pipe of a raw child that is reported together
  with a hang-up; for \<open>TryRead()\<close> has called the handler, which destroys the relay, and returns
  true, so that \<open>OnResponsePipeReady()\<close> goes on to test the hang-up bit and to close the pipe of
  the dead object. A server that \<open>main()\<close> has started with the configuration of the
  integration test gets into a state in which this can occur. A read error without the
  hang-up bit is answered \<open>Zread error\<close> and ends the connection.\<close>

theorem read_error_crash:
  assumes "libs_ok L" and "server_trace L es s" and "server_enabled E s e"
  shows "(server_step L E e s = Inl x \<longleftrightarrow>
      x = UseAfterFree \<and> (\<exists>k ev. e = failed_read k ev \<and> hangup ev \<and> others ev)) \<and>
    (\<exists>i es' s'. main ref_build ref_libs ref_startup test_os [''qrelay'', ''--config'', ''/test/config.lua'']
         ''/root'' 0 = Inr i \<and> server_trace ref_libs es' s' \<and> srv_listeners s' = listeners i \<and>
       server_enabled test_env s' (failed_read 0 broken_pipe) \<and>
       server_step ref_libs test_env (failed_read 0 broken_pipe) s' = Inl UseAfterFree) \<and>
    (\<forall>k ev. e = failed_read k ev \<and> \<not> hangup ev \<longrightarrow>
       (\<exists>s' c. server_step L E e s = Inr s' \<and> conns s' k = Some c \<and> destroyed c \<and>
          responses c = [''Zread error'']))"
proof (intro conjI)
  show "server_step L E e s = Inl x \<longleftrightarrow>
      x = UseAfterFree \<and> (\<exists>k ev. e = failed_read k ev \<and> hangup ev \<and> others ev)"
  proof
    assume crash: "server_step L E e s = Inl x"
    then have "server_hazard e"
      using server_total [OF assms] by fastforce
    then obtain k ev where "e = failed_read k ev" "hangup ev" "others ev"
      unfolding server_hazard_iff by blast
    with failed_read_crash [of E s k ev L] assms(3) crash
    show "x = UseAfterFree \<and> (\<exists>k ev. e = failed_read k ev \<and> hangup ev \<and> others ev)"
      by auto
  qed (use failed_read_crash assms(3) in blast)
  show "\<exists>i es' s'. main ref_build ref_libs ref_startup test_os [''qrelay'', ''--config'', ''/test/config.lua'']
         ''/root'' 0 = Inr i \<and> server_trace ref_libs es' s' \<and> srv_listeners s' = listeners i \<and>
       server_enabled test_env s' (failed_read 0 broken_pipe) \<and>
       server_step ref_libs test_env (failed_read 0 broken_pipe) s' = Inl UseAfterFree"
    using failed_read_reached failed_read_crash [of test_env _ 0 broken_pipe ref_libs]
    by (metis pipe_events.select_convs test_main)
  show "\<forall>k ev. e = failed_read k ev \<and> \<not> hangup ev \<longrightarrow>
       (\<exists>s' c. server_step L E e s = Inr s' \<and> conns s' k = Some c \<and> destroyed c \<and>
          responses c = [''Zread error''])"
    using failed_read_answered [OF assms(1,2)] assms(3) by blast
qed

theorem read_error_crash_witness:
  "\<exists>es s. server_trace ref_libs es s \<and>
    server_step ref_libs test_env (failed_read 0 broken_pipe) s = Inl UseAfterFree"
proof -
  obtain es s where s: "server_trace ref_libs es s" "server_enabled test_env s (failed_read 0 broken_pipe)"
    using failed_read_reached by blast
  from read_error_crash [OF ref_libs_ok this, of UseAfterFree, THEN conjunct1] s(1) show ?thesis
    by (simp del: server_step.simps) blast
qed

end
