(* ===== verification/Spec2Isabelle.thy ===== *)
theory Spec2Isabelle
  imports Delivery Serial Accounting Completion Forwarding Hazard
begin

text \<open>
  \<^bold>\<open>qrelay, a QMQP relay server: models and properties.\<close>

  \<^bold>\<open>The program.\<close> qrelay accepts mails by QMQP on local sockets, asks a Lua function what to do
  with each one, and relays it: to another QMQP server, to a child process that talks QMQP
  on its standard input and output, or to a child that reads the bare message. Its parts,
  from the wire inwards:

  \<^item> \<open>src/djb/NetstringParser.cxx\<close> and \<open>src/djb/QmqpMail.cxx\<close> parse a request;
  \<^item> \<open>src/MutableMail\<close> and \<open>src/LMail.cxx\<close> make it an object that a Lua script can inspect and
    edit, and whose methods create the actions of \<open>src/Action.hxx\<close> and \<open>src/LAction.cxx\<close>;
  \<^item> \<open>src/BasicRelay\<close>, \<open>src/RemoteRelay\<close>, \<open>src/ExecRelay\<close> and \<open>src/RawExecRelay\<close> carry an action out and
    call a \<open>RelayHandler\<close> (\<open>src/Handler.hxx\<close>) once;
  \<^item> \<open>src/Connection.cxx\<close> is the life of one client: it receives, runs the script, starts the
    relay, is its handler, answers, logs, and deletes itself;
  \<^item> \<open>src/Main.cxx\<close>, \<open>src/Instance.cxx\<close>, \<open>src/CommandLine.cxx\<close>, \<open>src/LResolver.cxx\<close> start the server.

  \<^bold>\<open>The theories.\<close> A class is a record, a method a function from its state to its new state;
  whatever calls back, crashes or fails is a value.

  \<^item> \<open>Prelude\<close>: decimal numbers, 64 bit sizes, the bind of results.
  \<^item> \<open>Action\<close>: the action record, the values of Lua, the errors of its C interface.
  \<^item> \<open>Libcommon\<close>: the library routines that are not in the repository, as a record of
    parameters, the laws the code relies on, and an instance that satisfies them all.
  \<^item> \<open>NetstringParser\<close>, \<open>QmqpMail\<close>: the parsers. What is accepted is characterised exactly; well
    formed input is read back; what was read re-encodes to the input; each kind of bad input
    has its result.
  \<^item> \<open>MutableMail\<close>, \<open>LMail\<close>: mail objects in a heap of userdata. Every function callable from
    Lua meets one contract (locale \<open>lua_method\<close>): objects stay well formed, their content does
    not change, a stale object is not touched. From it follow the absence of header
    injection and the facts about actions. What a script inserts is compared with what a
    reader of the message finds, by a reader of header fields that is defined for this.
  \<^item> \<open>Relay\<close>: exit statuses, the calls to the handler, and two contracts: \<open>relay_handler\<close> (a call
    is the end of the handler's owner) and \<open>relay_operation\<close> with its extension \<open>child_relay\<close>
    (an enabled event keeps the invariant or ends in one well-formed call; a child is
    forgotten only when it has exited).
  \<^item> \<open>Spawn\<close>: how a child process is prepared, with its argument arrays, signals and file actions,
    and which descriptors and signals it starts with.
  \<^item> \<open>QmqpRelays\<close>, \<open>ExecRelay\<close>, \<open>RawExecRelay\<close>: the relays, each an interpretation of the contract.
    What the next server is sent parses again; the order of response and exit does not
    matter; an acceptance needs a successful exit. The raw relay records the bytes that have
    gone into the pipe (\<open>input_written\<close>). \<open>Delivery\<close>: a raw child reads its whole
    input in order, and only then its end.
  \<^item> \<open>Connection\<close>: the callbacks of a connection and its events. \<open>ConnectionLife\<close>: its invariant,
    the equation of its end, the specification \<open>turns\<close> of a step, the traces \<open>conn_trace\<close>; it
    interprets \<open>relay_handler\<close>. \<open>ConnectionProps\<close>: what holds of every trace.
  \<^item> \<open>Server\<close>: all connections of a process, with the one Lua state they share, their events
    interleaved arbitrarily. The traces of a connection allow for interference (rule
    \<open>interfere\<close>): the others may do to the shared state what \<open>rely\<close> says. What a step of a
    connection guarantees is within what the others rely on, so every connection of the
    server has a trace of its own and all that holds of traces holds in the server.
  \<^item> \<open>Locality\<close>: what a callback reads and writes. A callback of a connection, and a function
    called from Lua (locale \<open>local_method\<close>), commutes with an exchange of the objects of the heap
    that are not its own. \<open>Serial\<close>: therefore events of different clients can be exchanged, and any
    run in which scripts keep to themselves equals the one that serves the clients one after
    the other.
  \<^item> \<open>Views\<close>: the memory that the string views of a mail and the queued spans of a relay refer
    to; what leaves it in place, and the one call of a script that does not.
  \<^item> \<open>Completion\<close>: no relay swallows its result. \<open>Forwarding\<close>: from the bytes of the client to what
    the relay is given, and on to the mail object of another server of this kind.
  \<^item> \<open>Service\<close>: what the server promises its clients, as an abstract machine without mails and
    relays, and the refinement: locale \<open>simulation\<close>, interpreted on the server.
  \<^item> \<open>Startup\<close>: command line, configuration script, listeners, \<open>main()\<close>. \<open>SizeLimits\<close>: the size limit,
    from the configuration script to the mails of the running server. \<open>Shutdown\<close>: signals, the
    end of the event loop, and the connections that are left then. \<open>Accounting\<close>: what the log
    server receives, from the configuration to the end of the server.
  \<^item> \<open>Execution\<close>: the model is run. An executable function replays a list of events and checks
    each for its guard; with it the unit tests (\<open>test/\<close>) become theorems, and a state in which a
    relay has lost the sender of its mail is reached.
  \<^item> \<open>Integration\<close>: scripts whose calls depend on earlier results, the handler of
    \<open>test/config/config.lua\<close> as one of them, and the integration test for any mail, from \<open>main()\<close>
    to the answer. \<open>Hazard\<close>: the one crash that is left, and a reachable state in which it occurs.
  \<^item> This theory: the way of a mail through all of it, from the configuration to the next server.

  \<^bold>\<open>Time and callbacks.\<close> The event loop is a sequence of events, each an enabled callback in an
  environment of its own: clock values, answers of the operating system, whether the
  response could be sent. Nothing is assumed of the order of events but what the libraries
  document: no callback after the object is deleted, one request per connection, one end of
  a coroutine, one exit of a child. A callback that touches a deleted object, fails an
  assertion or reaches \<open>std::unreachable()\<close> yields a crash; the theorems show which cannot
  happen, and that one can: \<open>RawExecRelay::OnResponsePipeReady()\<close> goes on after a read error
  when the event mask has the hang-up bit.

  \<^bold>\<open>Bounds.\<close> Sizes are 64 bit words where the code has \<open>size_t\<close>; the decimal field of a netstring
  is bounded by \<open>2^64\<close>, and a theorem that encodes a string assumes that its length fits. At
  most 1024 recipients, 16 headers, 32 arguments and environment variables, 256 bytes of
  output of a raw child, 256 bytes of a response: each limit is proved of every state that can be reached. There is
  no fuel: the only loops, over recipients and tables, are structural or decrease the input.

  \<^bold>\<open>Not modelled.\<close> The Lua interpreter (a script is any sequence of calls on the objects it can
  reach), the event loop, sockets, pipes and process creation below their results, the
  netstring server and client classes, all of \<open>libcommon\<close> beyond the laws of \<open>Libcommon\<close>.
  Spans are modelled by the bytes they refer to when they are made; \<open>Views\<close> states when the
  memory still has these bytes, and what is written after it has lost them is not modelled.
  What the libraries do when a listener is destroyed is taken to be what it is for: every
  connection is deleted, in an order that is left open.
  How many bytes a write to the pipe of a raw child accepts is left open: \<open>MultiWriteBuffer\<close> is
  of \<open>libcommon\<close>, and its answer is an argument of the event, of which some theorems assume that
  what is left to write is the end of what was there (\<open>write_law\<close>).
  A script that fetches the metatable of a mail object and calls its \<open>__close\<close> function itself
  (\<open>src/LMail.cxx\<close>, \<open>RegisterLuaMail()\<close>) is not modelled: whether it can depends on what
  \<open>Lua::Class\<close> of \<open>libcommon\<close> shows to scripts, and a mail closed in this way would be relayed
  as an empty one.
  The conversions of the log datagram's time stamp and the unit of its duration are the
  library's; the division that \<open>std::chrono::duration_cast\<close> does is written out.
  The text of log messages on standard error is dropped. What remains of the sources beyond
  the modelled definitions are includes, comments, declarations of methods that are modelled
  where they are defined, and getters of the event loop, the Lua state and the list of
  children to be terminated.
\<close>

section \<open>Properties\<close>

text \<open>C4: From the configuration to the next server. In a server that \<open>main()\<close> has started with
  whatever configuration, among any other clients, a client sends a mail as QMQP prescribes,
  and whatever scripts do with the mail object, its handler asks for a relay, which starts:
  another QMQP server or a QMQP child is given a payload that parses again, to the received
  message without its leading blanks behind the inserted headers, to exactly the received
  recipients, and to the sender as the scripts have left it, which is verified; of a raw
  child, these headers and this message are the input: what has gone into its pipe when the
  relay has started is a beginning of it, what is queued is the rest, and the pipe is open
  exactly if there is a rest; and every inserted header is a single line. (The headers and
  the sender may be as long as memory allows; the first write to the pipe leaves the end
  of the buffers to be written.)\<close>

theorem server_forwards:
  assumes "libs_ok L" and "main B L' S sys argv dir fds = Inr i" and "server_trace L es s"
    and "srv_listeners s = listeners i"
    and "Conn k (EvRequest (Some (qmqp_payload msg sndr rcpts))) \<in> set es"
    and "list_all (VerifyEmailAddress L) (sndr # rcpts)"
    and "rcpts \<noteq> []" and "length rcpts \<le> MAX_RECIPIENTS"
    and "conns s k = Some c" and "mail_ptr c = Some j" and "srv_heap s j = Some m"
    and "length (concat (headers m)) + length (sender m) < 2 ^ 63"
    and "server_enabled E s (Conn k (EvLuaFinished (LAction a)))"
    and "server_step L E (Conn k (EvLuaFinished (LAction a))) s = Inr s'"
    and "conns s' k = Some c'" and "\<not> destroyed c'"
    and "type a = EXEC_RAW \<Longrightarrow> write_law (AssembleHeaders L (conn_peer c) m @ [message m]) (pipe_write E)"
  shows "\<exists>r input. relay_operation c' = Some r \<and> list_all header_line (headers m) \<and>
    input = concat (AssembleHeaders L (conn_peer c) m) @ StripLeft L msg \<and>
    (if type a = EXEC_RAW then writes_input input r
     else \<exists>payload mail. gives_payload payload r \<and>
       Parse L payload (new_mutable_mail (Some payload)) = (SUCCESS, mail) \<and>
       message mail = input \<and> recipients mail = rcpts \<and> sender mail = sender m \<and>
       VerifyEmailAddress L (sender mail))"
proof -
  have trace: "conn_trace L (events_of k es) (attach s c)"
    by (rule server_invD(1) [OF server_trace_inv [OF assms(1,3)] assms(9)])
  have step: "conn_enabled E (attach s c) (EvLuaFinished (LAction a))"
      "conn_step L E (EvLuaFinished (LAction a)) (attach s c) = Inr c'"
    using assms(9,13-15) by (auto simp: server_conn_def and_then_Inr)
  have sent: "EvRequest (Some (qmqp_payload msg sndr rcpts)) \<in> set (events_of k es)"
    using assms(5) by (simp add: events_of_set)
  have c: "\<not> destroyed (attach s c)" "state (attach s c) \<noteq> INIT"
    using enabled_alive [OF step(1)] step(1) alive_simps(2) [OF trace_alive [OF assms(1) trace]] by auto
  have own: "mail_ptr (attach s c) = Some j" "lua_heap (attach s c) j = Some m"
      "conn_peer (attach s c) = conn_peer c"
    using assms(10,11) by (simp_all add: attach_def)
  note law = assms(17) [folded own(3)]
  have "\<not> IsStale m"
    using received_content [OF assms(1) trace c sent assms(6-8) own(1,2)] by simp
  then have "length (message m) \<le> 2 ^ 30"
    using main_mail_within [OF assms(1-4,11)] by simp
  moreover have "length (concat (AssembleHeaders L (conn_peer c) m)) \<le> length (concat (headers m)) + 57"
    using received_line_length [of "conn_peer c"] libs_okD(8) [OF assms(1)]
    by (simp add: AssembleHeaders_eq)
  ultimately have fits: "fits64 (concat (AssembleHeaders L (conn_peer (attach s c)) m) @ message m)"
      "fits64 (sender m)"
    using assms(12) by (simp_all add: fits64_def own(3))
  let ?payload = "wire_payload (BasicRelay_new L m (AssembleHeaders L (conn_peer c) m))"
  from mail_forwarded [OF assms(1) trace sent assms(6-8) own(1,2) fits step assms(16) _ law,
      where fresh = "new_mutable_mail (Some ?payload)"]
  obtain r input where r: "relay_operation c' = Some r" "list_all header_line (headers m)"
      "input = concat (AssembleHeaders L (conn_peer c) m) @ StripLeft L msg"
      "if type a = EXEC_RAW then writes_input input r
       else \<exists>payload mail. gives_payload payload r \<and> Parse L payload (new_mutable_mail (Some ?payload)) = (SUCCESS, mail) \<and>
         message mail = input \<and> recipients mail = rcpts \<and> sender mail = sender m \<and>
         VerifyEmailAddress L (sender mail)"
    unfolding own(3) by (auto simp: new_mutable_mail_def)
  have "payload = ?payload" if "gives_payload payload r" for payload
    using relay_created [OF assms(1) trace step assms(16) own(1,2)] r(1) that relay_started_payload
    unfolding own(3) by force
  with r show ?thesis
    by (cases "type a = EXEC_RAW") auto
qed

theorem server_forwards_witness:
  "\<exists>s s' c' r. srv_listeners s = [test_listener] \<and>
    server_step ref_libs test_env (Conn 0 (EvLuaFinished (LAction test_action))) s = Inr s' \<and>
    conns s' 0 = Some c' \<and> relay_operation c' = Some r \<and>
    writes_input (''X-Header2: Bar'' @ CRLF @ ''X-Header1: Foo'' @ CRLF @ received_line test_peer @ test_message) r"
proof -
  let ?e = "Conn 0 (EvLuaFinished (LAction test_action))"
  obtain i where i: "main ref_build ref_libs ref_startup test_os [''qrelay'', ''--config'', ''/test/config.lua'']
      ''/root'' 0 = Inr i" "listeners i = [test_listener]"
    by (rule test_main)
  obtain es c0 mail as q where c0: "conn_peer c0 = test_peer" "\<not> destroyed c0"
    and mail: "message mail = test_message" "sender mail = test_sender" "headers mail = []"
    and trace: "server_trace ref_libs es (commit 0 (handled ref_libs test_env mail as c0) (server_new [test_listener]))"
      "Conn 0 (EvRequest (Some test_payload)) \<in> set es"
    and start: "run_conn ref_libs [(test_env, EvLuaFinished (LAction test_action))] (handled ref_libs test_env mail as c0) =
      Some (relays_raw q (handled ref_libs test_env mail as c0))"
    by (rule test_reached)
  let ?c = "handled ref_libs test_env mail as c0" and ?m = "the_mail ref_libs mail c0"
  let ?s = "commit 0 ?c (server_new [test_listener])"
  have step: "server_enabled test_env ?s ?e" "server_step ref_libs test_env ?e ?s = Inr (commit 0 (relays_raw q ?c) ?s)"
    using run_server_conn [OF start, of 0 "server_new [test_listener]"] by (auto split: if_splits sum.splits)
  have ls: "srv_listeners ?s = [test_listener]" "srv_listeners ?s = listeners i"
    by (simp_all add: i(2) new_server)
  have c: "conns ?s 0 = Some ?c" "mail_ptr ?c = Some 0" "srv_heap ?s 0 = Some ?m"
    using handled_sel(3,4) [of ref_libs test_env mail as c0] by (simp_all add: test_env_sel(1))
  have small: "length (concat (headers ?m)) + length (sender ?m) < 2 ^ 63"
    unfolding the_mail_sel mail by (simp add: test_sender_def)
  have after: "conns (commit 0 (relays_raw q ?c) ?s) 0 = Some (relays_raw q ?c)" "\<not> destroyed (relays_raw q ?c)"
    using c0(2) by simp_all
  have few: "length test_recipients \<le> MAX_RECIPIENTS"
    by (simp add: test_recipients_def MAX_RECIPIENTS_def)
  have law: "write_law bufs (pipe_write test_env)" for bufs
    by (simp add: test_env_sel(5))
  have hs: "concat (AssembleHeaders ref_libs (conn_peer ?c) ?m) @ test_message =
      ''X-Header2: Bar'' @ CRLF @ ''X-Header1: Foo'' @ CRLF @ received_line test_peer @ test_message"
    unfolding AssembleHeaders_eq [OF libs_okD(8) [OF ref_libs_ok]] the_mail_sel mail(3)
    by (simp add: c0(1) test_mail(6))
  have raw: "type test_action = EXEC_RAW"
    by (simp add: record_action_def)
  from server_forwards [OF ref_libs_ok i(1) trace(1) ls(2) trace(2) test_mail(1,4) few c small step after law]
  have "\<exists>r. relay_operation (relays_raw q ?c) = Some r \<and>
      writes_input (''X-Header2: Bar'' @ CRLF @ ''X-Header1: Foo'' @ CRLF @ received_line test_peer @ test_message) r"
    unfolding test_mail(3) hs raw by auto
  with ls(1) step(2) after(1) show ?thesis
    by blast
qed

end
